theory Spec2Isabelle
  imports Complex_Main
begin

section \<open>The network watchdog \<open>check_proxy_connectivity.py\<close>\<close>

text \<open>
  The script probes an external URL, and when the probe fails it inspects and repairs a
  local proxy service through three control URLs. Everything it does is an HTTP GET, a
  sleep, a log line or \<open>sys.exit\<close>. The embedding makes these effects explicit: a
  program is a function from a world to a result and a new world, where the world holds
  the outcome of every future GET and the trace of the effects performed so far, and the
  result is either a raised Python exception or a value.
\<close>

subsection \<open>Configuration constants (lines 20--27)\<close>

definition GOOGLE_URL :: string where
  "GOOGLE_URL = ''https://www.google.com''"

definition OPENCLASH_STATUS_URL :: string where
  "OPENCLASH_STATUS_URL = ''http://192.168.100.2:3789/api/v1.0/clash/status''"

definition OPENCLASH_DOWN_URL :: string where
  "OPENCLASH_DOWN_URL = ''http://192.168.100.2:3789/api/v1.0/clash/down''"

definition OPENCLASH_UP_URL :: string where
  "OPENCLASH_UP_URL = ''http://192.168.100.2:3789/api/v1.0/clash/up''"

definition TIMEOUT :: int where
  "TIMEOUT = 10"

definition MAX_RETRIES :: int where
  "MAX_RETRIES = 3"

definition RETRY_INTERVAL :: int where
  "RETRY_INTERVAL = 30"

subsection \<open>Decoded JSON values and Python's \<open>in\<close>\<close>

text \<open>
  What \<open>response.json()\<close> returns: \<open>None\<close>, a \<open>bool\<close>, an \<open>int\<close>, a \<open>float\<close>, a
  \<open>str\<close>, a \<open>list\<close> or a \<open>dict\<close>. A float is a rational, an infinity or NaN (the
  decoder accepts \<open>Infinity\<close> and \<open>NaN\<close>). A dict is an association list read through
  \<open>map_of\<close>, so a key has one value.
\<close>

datatype pyfloat = Finite rat | PosInf | NegInf | NaN

datatype json =
    JNull
  | JBool bool
  | JInt int
  | JFloat pyfloat
  | JStr string
  | JList "json list"
  | JObj "(string \<times> json) list"

text \<open>
  The numeric value of a Python object that takes part in numeric comparison: \<open>bool\<close> is
  a subclass of \<open>int\<close> with \<open>True == 1\<close> and \<open>False == 0\<close>, and \<open>int\<close> and \<open>float\<close>
  compare by value.
\<close>

fun as_number :: "json \<Rightarrow> pyfloat option" where
  "as_number (JBool b) = Some (Finite (if b then 1 else 0))"
| "as_number (JInt n) = Some (Finite (of_int n))"
| "as_number (JFloat x) = Some x"
| "as_number _ = None"

text \<open>
  Python's \<open>v == s\<close> for a decoded value \<open>v\<close> and a scalar \<open>s\<close> (a bool, a number or a
  string): two numbers are equal when their values are, and NaN equals nothing; a string
  equals only the same string; values of unrelated types are unequal.
\<close>

definition py_eq :: "json \<Rightarrow> json \<Rightarrow> bool" where
  "py_eq v s =
     (case (as_number v, as_number s) of
        (Some x, Some y) \<Rightarrow> x = y \<and> x \<noteq> NaN
      | (None, None) \<Rightarrow> v = s
      | _ \<Rightarrow> False)"

text \<open>Python's \<open>v in [s1, ..., sn]\<close> for a list of scalars.\<close>

definition py_in :: "json \<Rightarrow> json list \<Rightarrow> bool" where
  "py_in v ss = list_ex (py_eq v) ss"

subsection \<open>HTTP outcomes, exceptions, effects\<close>

text \<open>
  How \<open>response.json()\<close> can fail. The decoder rejects a body that is not JSON with a
  decode error, which is a \<open>ValueError\<close>; on a body that nests deeper than the
  interpreter's recursion limit, well-formed or not (a hundred thousand opening brackets,
  say), it raises \<open>RecursionError\<close>, which is not a \<open>ValueError\<close>.
\<close>

datatype json_raises = RaisesValueError | RaisesRecursionError

record response =
  status_code :: int
  body_json :: "json_raises + json"  \<comment> \<open>what \<open>response.json()\<close> raises or returns\<close>

text \<open>
  The exceptions \<open>requests.get\<close> raises, by the two base classes the script's handlers
  name: \<open>ConnectTimeout\<close> derives from both \<open>ConnectionError\<close> and \<open>Timeout\<close>; the
  constructor \<open>Timeout\<close> stands for the other timeouts (a read timeout),
  \<open>ConnectionError\<close> for the other connection errors, and \<open>RequestException\<close> for
  every other exception of the library.
\<close>

datatype request_exception = ConnectTimeout | Timeout | ConnectionError | RequestException

text \<open>
  The other exceptions of a run: \<open>UnicodeEncodeError\<close> derives from \<open>ValueError\<close>;
  \<open>RecursionError\<close> derives from \<open>Exception\<close> through \<open>RuntimeError\<close>, and neither
  from \<open>ValueError\<close> nor from the exceptions of the requests library.
\<close>

datatype exn =
    RequestExc request_exception
  | ValueError
  | UnicodeEncodeError
  | RecursionError
  | SystemExit int

fun isinstance_RequestException :: "exn \<Rightarrow> bool" where
  "isinstance_RequestException (RequestExc _) = True"
| "isinstance_RequestException _ = False"

fun isinstance_Timeout :: "exn \<Rightarrow> bool" where
  "isinstance_Timeout (RequestExc ConnectTimeout) = True"
| "isinstance_Timeout (RequestExc Timeout) = True"
| "isinstance_Timeout _ = False"

fun isinstance_ConnectionError :: "exn \<Rightarrow> bool" where
  "isinstance_ConnectionError (RequestExc ConnectTimeout) = True"
| "isinstance_ConnectionError (RequestExc ConnectionError) = True"
| "isinstance_ConnectionError _ = False"

fun isinstance_ValueError :: "exn \<Rightarrow> bool" where
  "isinstance_ValueError ValueError = True"
| "isinstance_ValueError UnicodeEncodeError = True"
| "isinstance_ValueError _ = False"

text \<open>\<open>SystemExit\<close> derives from \<open>BaseException\<close>, not from \<open>Exception\<close>.\<close>

fun isinstance_Exception :: "exn \<Rightarrow> bool" where
  "isinstance_Exception (SystemExit _) = False"
| "isinstance_Exception _ = True"

text \<open>
  An effect of the script. \<open>Log l\<close> is the call of \<open>log_message\<close> at line \<open>l\<close> of the
  source, once its text is written; the text itself is not part of the event.
\<close>

datatype event =
    Get string int  \<comment> \<open>\<open>requests.get(url, timeout=...)\<close>\<close>
  | Sleep int       \<comment> \<open>\<open>time.sleep(seconds)\<close>\<close>
  | Log nat

record world =
  net :: "nat \<Rightarrow> request_exception + response"  \<comment> \<open>the outcome of the k-th GET of the run\<close>
  stdout_encodes :: "string \<Rightarrow> bool"              \<comment> \<open>the texts \<open>sys.stdout\<close> can encode\<close>
  calls :: nat                                     \<comment> \<open>the number of GETs issued so far\<close>
  trace :: "event list"                            \<comment> \<open>the effects so far, oldest first\<close>

text \<open>
  A Python \<open>str\<close> is modelled by its UTF-8 bytes, and a surrogate code point
  (U+D800 to U+DFFF, which a JSON escape such as \<open>\ud83d\<close> decodes to) by the three
  bytes it would have: \<open>0xED\<close>, a byte from \<open>0xA0\<close> to \<open>0xBF\<close>, and a continuation
  byte. \<open>print\<close> raises \<open>UnicodeEncodeError\<close> on a text \<open>sys.stdout\<close> cannot encode.
  With the UTF-8 encoding and the error handler \<open>strict\<close>, the default, these are the
  texts that hold a surrogate.
\<close>

fun has_surrogate :: "string \<Rightarrow> bool" where
  "has_surrogate (c # d # cs) =
     ((of_char c = (0xED :: nat) \<and> (0xA0 :: nat) \<le> of_char d \<and> of_char d \<le> (0xBF :: nat)) \<or>
      has_surrogate (d # cs))"
| "has_surrogate _ = False"

definition utf8_strict :: "string \<Rightarrow> bool" where
  "utf8_strict s = (\<not> has_surrogate s)"

type_synonym 'a prog = "world \<Rightarrow> (exn + 'a) \<times> world"

definition return :: "'a \<Rightarrow> 'a prog" where
  "return x w = (Inr x, w)"

definition raise :: "exn \<Rightarrow> 'a prog" where
  "raise e w = (Inl e, w)"

definition bind :: "'a prog \<Rightarrow> ('a \<Rightarrow> 'b prog) \<Rightarrow> 'b prog" where
  "bind m f w = (case m w of (Inl e, w') \<Rightarrow> (Inl e, w') | (Inr x, w') \<Rightarrow> f x w')"

text \<open>Statements run in order, then the rest of the block.\<close>

fun block :: "unit prog list \<Rightarrow> 'a prog \<Rightarrow> 'a prog" where
  "block [] k = k"
| "block (m # ms) k = bind m (\<lambda>_. block ms k)"

text \<open>
  \<open>try: m except ...\<close>: the handler maps an exception to the body of the first clause
  that matches it, or to \<open>None\<close> when no clause does and the exception propagates.
\<close>

definition try_except :: "'a prog \<Rightarrow> (exn \<Rightarrow> 'a prog option) \<Rightarrow> 'a prog" where
  "try_except m h w =
     (case m w of
        (Inl e, w') \<Rightarrow> (case h e of Some k \<Rightarrow> k w' | None \<Rightarrow> (Inl e, w'))
      | (Inr x, w') \<Rightarrow> (Inr x, w'))"

text \<open>
  \<open>for x in xs: body\<close> inside a function: the body yields \<open>Some r\<close> when it executes
  \<open>return r\<close>, which ends the loop, and \<open>None\<close> when it reaches its end.
\<close>

fun for_loop :: "'i list \<Rightarrow> ('i \<Rightarrow> 'r option prog) \<Rightarrow> 'r option prog" where
  "for_loop [] body w = (Inr None, w)"
| "for_loop (x # xs) body w =
     (case body x w of
        (Inl e, w') \<Rightarrow> (Inl e, w')
      | (Inr (Some r), w') \<Rightarrow> (Inr (Some r), w')
      | (Inr None, w') \<Rightarrow> for_loop xs body w')"

definition log_message :: "nat \<Rightarrow> unit prog" where
  "log_message l w = (Inr (), w\<lparr>trace := trace w @ [Log l]\<rparr>)"

text \<open>
  A log message that interpolates a decoded JSON value (line 70 is the only one). The
  text of a \<open>str\<close> value is the string itself, so \<open>print\<close> raises when \<open>sys.stdout\<close>
  cannot encode it, and then nothing is written. Any other value is interpolated as the
  text of a number, a bool or \<open>None\<close>, or as the \<open>repr\<close> of a list or dict, which
  escapes what cannot be printed. The fixed texts of the messages are Chinese text and
  emoji, which \<open>sys.stdout\<close> is taken to encode.
\<close>

definition unprintable :: "(string \<Rightarrow> bool) \<Rightarrow> json \<Rightarrow> bool" where
  "unprintable encodes v = (case v of JStr s \<Rightarrow> \<not> encodes s | _ \<Rightarrow> False)"

definition log_message_value :: "nat \<Rightarrow> json \<Rightarrow> unit prog" where
  "log_message_value l v w =
     (if unprintable (stdout_encodes w) v then (Inl UnicodeEncodeError, w)
      else (Inr (), w\<lparr>trace := trace w @ [Log l]\<rparr>))"

definition time_sleep :: "int \<Rightarrow> unit prog" where
  "time_sleep n w = (Inr (), w\<lparr>trace := trace w @ [Sleep n]\<rparr>)"

definition sys_exit :: "int \<Rightarrow> 'a prog" where
  "sys_exit c = raise (SystemExit c)"

definition requests_get :: "string \<Rightarrow> int \<Rightarrow> response prog" where
  "requests_get url timeout w =
     ((case net w (calls w) of Inl e \<Rightarrow> Inl (RequestExc e) | Inr r \<Rightarrow> Inr r),
      w\<lparr>calls := Suc (calls w), trace := trace w @ [Get url timeout]\<rparr>)"

definition response_json :: "response \<Rightarrow> json prog" where
  "response_json r =
     (case body_json r of
        Inl RaisesValueError \<Rightarrow> raise ValueError
      | Inl RaisesRecursionError \<Rightarrow> raise RecursionError
      | Inr v \<Rightarrow> return v)"

subsection \<open>\<open>check_google_connectivity\<close> (lines 36--48)\<close>

definition check_google_connectivity :: "bool prog" where
  "check_google_connectivity =
     try_except
       (bind (requests_get GOOGLE_URL TIMEOUT) (\<lambda>response.
          if status_code response = 200
          then block [log_message 41] (return True)
          else block [log_message 44] (return False)))
       (\<lambda>e. if isinstance_RequestException e
            then Some (block [log_message 47] (return False))
            else None)"

subsection \<open>\<open>check_openclash_status\<close> (lines 51--94)\<close>

definition status_fields :: "string list" where
  "status_fields = [''running'', ''status'', ''state'', ''enabled'', ''active'', ''success'']"

text \<open>The list literal of line 66: \<open>[True, 'running', 'active', 'enabled', 'up', 1]\<close>.\<close>

definition active_values :: "json list" where
  "active_values =
     [JBool True, JStr ''running'', JStr ''active'', JStr ''enabled'', JStr ''up'', JInt 1]"

text \<open>
  The body of the loop of lines 63--71, for one field of the decoded dict. The message
  of line 70 holds the value of the field, and it is written inside the \<open>try\<close> of line
  57.
\<close>

definition check_field :: "(string \<times> json) list \<Rightarrow> string \<Rightarrow> bool option prog" where
  "check_field data field =
     (case map_of data field of
        Some status_value \<Rightarrow>
          if py_in status_value active_values
          then block [log_message 67] (return (Some True))
          else block [log_message_value 70 status_value] (return (Some False))
      | None \<Rightarrow> return None)"

definition check_openclash_status :: "bool prog" where
  "check_openclash_status =
     try_except
       (bind (requests_get OPENCLASH_STATUS_URL TIMEOUT) (\<lambda>response.
          if status_code response = 200
          then
            try_except
              (bind (response_json response) (\<lambda>data.
                 case data of
                   JObj d \<Rightarrow>
                     bind (for_loop status_fields (check_field d)) (\<lambda>returned.
                       case returned of
                         Some b \<Rightarrow> return b
                       | None \<Rightarrow> block [log_message 74] (return True))
                 | _ \<Rightarrow> block [log_message 77] (return True)))
              (\<lambda>e. if isinstance_ValueError e
                   then Some (block [log_message 81] (return True))
                   else None)
          else block [log_message 84] (return False)))
       (\<lambda>e. if isinstance_ConnectionError e
            then Some (block [log_message 87] (return False))
            else if isinstance_Timeout e
            then Some (block [log_message 90] (return False))
            else if isinstance_RequestException e
            then Some (block [log_message 93] (return False))
            else None)"

subsection \<open>\<open>start_openclash\<close> (lines 97--113)\<close>

definition start_openclash :: "bool prog" where
  "start_openclash =
     try_except
       (block [log_message 100]
          (bind (requests_get OPENCLASH_UP_URL TIMEOUT) (\<lambda>response.
             if status_code response = 200
             then block [log_message 103, log_message 105, time_sleep 15] (return True)
             else block [log_message 109] (return False))))
       (\<lambda>e. if isinstance_RequestException e
            then Some (block [log_message 112] (return False))
            else None)"

subsection \<open>\<open>restart_openclash\<close> and its \<open>execute_request\<close> (lines 116--189)\<close>

text \<open>\<open>if attempt < max_retries: log_message(...); time.sleep(n)\<close>\<close>

definition wait_before_retry :: "int \<Rightarrow> int \<Rightarrow> nat \<Rightarrow> int \<Rightarrow> unit prog" where
  "wait_before_retry attempt max_retries l n =
     (if attempt < max_retries then block [log_message l, time_sleep n] (return ())
      else return ())"

text \<open>
  One iteration of the loop of lines 121--151. The parameter \<open>operation_name\<close> of the
  source only feeds the text of the log messages and is left out.
\<close>

definition execute_attempt :: "string \<Rightarrow> int \<Rightarrow> int \<Rightarrow> bool option prog" where
  "execute_attempt url max_retries attempt =
     try_except
       (block [log_message 123]
          (bind (requests_get url TIMEOUT) (\<lambda>response.
             if status_code response = 200
             then block [log_message 127] (return (Some True))
             else block [log_message 130, wait_before_retry attempt max_retries 132 3]
                    (return None))))
       (\<lambda>e. if isinstance_Timeout e
            then Some (block [log_message 136, wait_before_retry attempt max_retries 138 3]
                         (return None))
            else if isinstance_ConnectionError e
            then Some (block [log_message 142, wait_before_retry attempt max_retries 144 5]
                         (return None))
            else if isinstance_RequestException e
            then Some (block [log_message 148, wait_before_retry attempt max_retries 150 3]
                         (return None))
            else None)"

text \<open>\<open>range(1, max_retries + 1)\<close> is the list \<open>[1..max_retries]\<close>.\<close>

definition execute_request :: "string \<Rightarrow> int \<Rightarrow> bool prog" where
  "execute_request url max_retries =
     bind (for_loop [1..max_retries] (execute_attempt url max_retries)) (\<lambda>returned.
       case returned of
         Some b \<Rightarrow> return b
       | None \<Rightarrow> block [log_message 153] (return False))"

text \<open>Lines 180--185, reached when the start or the fallback start succeeded.\<close>

definition restart_settle :: "bool prog" where
  "restart_settle = block [log_message 181, time_sleep 10, log_message 184] (return True)"

definition restart_openclash :: "bool prog" where
  "restart_openclash =
     try_except
       (block [log_message 157, log_message 160]
          (bind (execute_request OPENCLASH_DOWN_URL 3) (\<lambda>stopped.
             if \<not> stopped
             then block [log_message 162] (return False)
             else
               block [log_message 166, time_sleep 5, log_message 170]
                 (bind (execute_request OPENCLASH_UP_URL 3) (\<lambda>started.
                    if \<not> started
                    then
                      block [log_message 172, log_message 174, time_sleep 3]
                        (bind (execute_request OPENCLASH_UP_URL 2) (\<lambda>started_again.
                           if \<not> started_again
                           then block [log_message 177] (return False)
                           else restart_settle))
                    else restart_settle)))))
       (\<lambda>e. if isinstance_Exception e
            then Some (block [log_message 188] (return False))
            else None)"

subsection \<open>\<open>main\<close> (lines 192--258)\<close>

text \<open>One iteration of the loop of lines 197--206; it never executes \<open>return\<close>.\<close>

definition probe_attempt :: "int \<Rightarrow> unit option prog" where
  "probe_attempt attempt =
     block [log_message 198]
       (bind check_google_connectivity (\<lambda>ok.
          if ok
          then block [log_message 201] (sys_exit 0)
          else if attempt < MAX_RETRIES
          then block [log_message 205, time_sleep RETRY_INTERVAL] (return None)
          else return None))"

text \<open>Lines 215--227: the service is reported as not running.\<close>

definition start_branch :: "unit prog" where
  "start_branch =
     block [log_message 215]
       (bind start_openclash (\<lambda>started.
          if started
          then
            block [log_message 218]
              (bind check_google_connectivity (\<lambda>ok.
                 if ok then block [log_message 222] (sys_exit 0)
                 else log_message 225))
          else log_message 227))"

text \<open>Lines 231--256: the service is reported as running.\<close>

definition restart_branch :: "unit prog" where
  "restart_branch =
     block [log_message 231]
       (bind restart_openclash (\<lambda>restarted.
          if restarted
          then
            block [log_message 234, time_sleep 60]
              (bind check_google_connectivity (\<lambda>ok.
                 if ok then block [log_message 239] (sys_exit 0)
                 else
                   block [log_message 242, log_message 245]
                     (bind check_openclash_status (\<lambda>final_status.
                        if final_status
                        then block [log_message 248, log_message 249, log_message 250,
                                    log_message 251] (log_message 252)
                        else log_message 254))))
          else log_message 256))"

text \<open>
  \<open>main\<close> ends in one of two ways: \<open>sys.exit(c)\<close> raises \<open>SystemExit c\<close>, which nothing
  catches, or control reaches the end of the function and it returns.
\<close>

definition main :: "unit prog" where
  "main =
     block [log_message 194]
       (bind (for_loop [1..MAX_RETRIES] probe_attempt) (\<lambda>_.
          block [log_message 209]
            (bind check_openclash_status (\<lambda>openclash_running.
               block [if \<not> openclash_running then start_branch else restart_branch]
                 (log_message 258)))))"

subsection \<open>Reading a trace\<close>

text \<open>The URLs requested, the sleeps, and both together (the trace without its log lines).\<close>

fun requested :: "event list \<Rightarrow> string list" where
  "requested [] = []"
| "requested (Get url t # es) = url # requested es"
| "requested (_ # es) = requested es"

fun sleeps :: "event list \<Rightarrow> int list" where
  "sleeps [] = []"
| "sleeps (Sleep n # es) = n # sleeps es"
| "sleeps (_ # es) = sleeps es"

fun is_Log :: "event \<Rightarrow> bool" where
  "is_Log (Log l) = True"
| "is_Log _ = False"

definition actions :: "event list \<Rightarrow> event list" where
  "actions es = filter (\<lambda>e. \<not> is_Log e) es"

subsection \<open>Outcomes of a GET\<close>

text \<open>The GET returned a response, and its status is 200.\<close>

definition http_200 :: "request_exception + response \<Rightarrow> bool" where
  "http_200 out = (case out of Inl e \<Rightarrow> False | Inr r \<Rightarrow> status_code r = 200)"

text \<open>
  The wait before a retry by the kind of failure of the attempt, in the words of the
  specification: 3 after a timeout, 5 after a connection error, 3 after any other failure
  of the request and after a status other than 200. A connect timeout, which the library
  derives from both \<open>Timeout\<close> and \<open>ConnectionError\<close>, is counted as a timeout.
\<close>

definition retry_wait :: "request_exception + response \<Rightarrow> int" where
  "retry_wait out =
     (case out of
        Inl e \<Rightarrow>
          if isinstance_Timeout (RequestExc e) then 3
          else if isinstance_ConnectionError (RequestExc e) then 5
          else 3
      | Inr r \<Rightarrow> 3)"

text \<open>
  What \<open>check_openclash_status\<close> returns or raises, as a function of the outcome of its
  GET and of what \<open>sys.stdout\<close> encodes: a failed request or a status other than 200 is
  not running; a body that makes the decoder raise \<open>RecursionError\<close> raises it; in a JSON
  object the first field of the priority list that is present decides, and is read as
  running when its value is active or cannot be printed; everything else with status 200
  is running. Lemma \<open>check_openclash_status_fst\<close> shows that the function returns it.
\<close>

definition status_result ::
  "(string \<Rightarrow> bool) \<Rightarrow> request_exception + response \<Rightarrow> exn + bool" where
  "status_result encodes out =
     (case out of
        Inl e \<Rightarrow> Inr False
      | Inr r \<Rightarrow>
          if status_code r = 200
          then (case body_json r of
                  Inl RaisesValueError \<Rightarrow> Inr True
                | Inl RaisesRecursionError \<Rightarrow> Inl RecursionError
                | Inr (JObj d) \<Rightarrow>
                    (case find (\<lambda>f. map_of d f \<noteq> None) status_fields of
                       Some f \<Rightarrow>
                         (case map_of d f of
                            Some status_value \<Rightarrow>
                              Inr (py_in status_value active_values \<or>
                                   unprintable encodes status_value)
                          | None \<Rightarrow> Inr True)
                     | None \<Rightarrow> Inr True)
                | Inr _ \<Rightarrow> Inr True)
          else Inr False)"

section \<open>Properties\<close>

subsection \<open>Running the single-request functions\<close>

lemmas prog_defs = bind_def return_def raise_def try_except_def log_message_def time_sleep_def
  sys_exit_def requests_get_def response_json_def log_message_value_def

lemma check_google_connectivity_run: "check_google_connectivity w =
  (Inr (http_200 (net w (calls w))),
   w\<lparr>calls := Suc (calls w),
     trace := trace w @ [Get GOOGLE_URL TIMEOUT,
        Log (case net w (calls w) of Inl e \<Rightarrow> 47 | Inr r \<Rightarrow> if status_code r = 200 then 41 else 44)]\<rparr>)"
  by (auto simp add: check_google_connectivity_def prog_defs http_200_def split: sum.splits)

lemma for_loop_check_field:
  "for_loop fs (check_field d) w =
     (case find (\<lambda>f. map_of d f \<noteq> None) fs of
        None \<Rightarrow> (Inr None, w)
      | Some f \<Rightarrow> check_field d f w)"
  by (induction fs) (auto simp: check_field_def prog_defs split: option.splits)

lemma check_field_run:
  assumes "map_of d f = Some v"
  shows "check_field d f w =
     (if py_in v active_values
      then (Inr (Some True), w\<lparr>trace := trace w @ [Log 67]\<rparr>)
      else if unprintable (stdout_encodes w) v
      then (Inl UnicodeEncodeError, w)
      else (Inr (Some False), w\<lparr>trace := trace w @ [Log 70]\<rparr>))"
  using assms by (simp add: check_field_def prog_defs)

lemma check_openclash_status_line:
  "\<exists>ls. check_openclash_status w =
     (status_result (stdout_encodes w) (net w (calls w)),
      w\<lparr>calls := Suc (calls w),
        trace := trace w @ Get OPENCLASH_STATUS_URL TIMEOUT # map Log ls\<rparr>)"
proof (cases "net w (calls w)")
  case (Inl e)
  then show ?thesis
    by (cases e)
       (auto simp add: check_openclash_status_def prog_defs status_result_def
          intro: exI[of _ "[l]" for l])
next
  case (Inr r)
  show ?thesis
  proof (cases "status_code r = 200")
    case False
    with Inr show ?thesis
      by (auto simp add: check_openclash_status_def prog_defs status_result_def
          intro: exI[of _ "[l]" for l])
  next
    case True
    show ?thesis
    proof (cases "body_json r")
      case (Inl raises)
      with Inr True show ?thesis
        by (cases raises)
           (auto simp add: check_openclash_status_def prog_defs status_result_def
              intro: exI[of _ "[l]" for l] exI[of _ "[]"])
    next
      case decoded: (Inr v)
      show ?thesis
      proof (cases "\<exists>d. v = JObj d")
        case False
        with Inr True decoded show ?thesis
          by (cases v)
             (auto simp add: check_openclash_status_def prog_defs status_result_def
                intro: exI[of _ "[l]" for l])
      next
        case obj: True
        then obtain d where d: "v = JObj d" by blast
        show ?thesis
        proof (cases "find (\<lambda>f. map_of d f \<noteq> None) status_fields")
          case None
          with Inr True decoded d show ?thesis
            by (auto simp add: check_openclash_status_def prog_defs status_result_def
                for_loop_check_field intro: exI[of _ "[l]" for l])
        next
          case (Some f)
          then have "map_of d f \<noteq> None"
            by (auto simp add: find_Some_iff)
          then obtain sv where sv: "map_of d f = Some sv" by blast
          from Inr True decoded d Some sv show ?thesis
            by (auto simp add: check_openclash_status_def prog_defs status_result_def
                for_loop_check_field check_field_run [OF sv]
                intro: exI[of _ "[l]" for l])
        qed
      qed
    qed
  qed
qed

lemma start_openclash_run:
  "start_openclash w =
     (Inr (http_200 (net w (calls w))),
      w\<lparr>calls := Suc (calls w),
        trace := trace w @ Log 100 # Get OPENCLASH_UP_URL TIMEOUT #
          (case net w (calls w) of
             Inl e \<Rightarrow> [Log 112]
           | Inr r \<Rightarrow> if status_code r = 200 then [Log 103, Log 105, Sleep 15] else [Log 109])\<rparr>)"
  by (auto simp add: start_openclash_def prog_defs http_200_def split: sum.splits)

lemma py_in_active_values:
  "py_in v active_values \<longleftrightarrow>
     v \<in> {JBool True, JInt 1, JFloat (Finite 1), JStr ''running'', JStr ''active'',
          JStr ''enabled'', JStr ''up''}"
  by (cases v) (auto simp: py_in_def active_values_def py_eq_def split: option.splits)

subsection \<open>The reachability prober\<close>


subsection \<open>The status checker\<close>

lemma check_openclash_status_first_field_printable:
  assumes "net w (calls w) = Inr r" and "status_code r = 200"
    and "body_json r = Inr (JObj d)"
    and "find (\<lambda>field. map_of d field \<noteq> None)
           [''running'', ''status'', ''state'', ''enabled'', ''active'', ''success''] = Some f"
    and "map_of d f = Some v"
    and "\<not> unprintable (stdout_encodes w) v"
  shows "fst (check_openclash_status w) =
     Inr (py_in v [JBool True, JStr ''running'', JStr ''active'', JStr ''enabled'',
                   JStr ''up'', JInt 1])"
  using assms
  by (simp add: check_openclash_status_def prog_defs for_loop_check_field
      check_field_run [OF assms(5)] status_fields_def active_values_def)

text \<open>
  Claim C1, at the input where the code departs from it. The status endpoint answers 200
  with the object \<open>{"state": "\ud83d", "success": true}\<close>, whose first field of the
  priority list is \<open>state\<close>; its value, a lone surrogate, is not in the list of line 66,
  so the first field present reads as not running. The message of line 70 cannot be
  printed, the \<open>except ValueError\<close> of line 79 catches the \<open>UnicodeEncodeError\<close>, and
  \<open>check_openclash_status\<close> writes the log line of line 81 and returns \<open>True\<close>.
\<close>

theorem check_openclash_status_unprintable_value:
  "find (\<lambda>field. map_of [(''state'', JStr [CHR 0xED, CHR 0xA0, CHR 0xBD]),
                          (''success'', JBool True)] field \<noteq> None) status_fields =
     Some ''state'' \<and>
   \<not> py_in (JStr [CHR 0xED, CHR 0xA0, CHR 0xBD]) active_values \<and>
   check_openclash_status
     \<lparr>net = \<lambda>k. Inr \<lparr>status_code = 200,
          body_json = Inr (JObj [(''state'', JStr [CHR 0xED, CHR 0xA0, CHR 0xBD]),
                                 (''success'', JBool True)])\<rparr>,
      stdout_encodes = utf8_strict, calls = 0, trace = []\<rparr> =
   (Inr True,
    \<lparr>net = \<lambda>k. Inr \<lparr>status_code = 200,
          body_json = Inr (JObj [(''state'', JStr [CHR 0xED, CHR 0xA0, CHR 0xBD]),
                                 (''success'', JBool True)])\<rparr>,
      stdout_encodes = utf8_strict, calls = 1,
      trace = [Get OPENCLASH_STATUS_URL TIMEOUT, Log 81]\<rparr>)"
  by (simp add: check_openclash_status_def prog_defs for_loop_check_field check_field_def
      status_fields_def py_in_def active_values_def py_eq_def unprintable_def
      utf8_strict_def)

lemma check_openclash_status_payloads:
  "fst (check_openclash_status
      \<lparr>net = \<lambda>k. Inr \<lparr>status_code = 200,
                          body_json = Inr (JObj [(''running'', JBool True)])\<rparr>,
       stdout_encodes = utf8_strict, calls = c, trace = t\<rparr>) = Inr True \<and>
   fst (check_openclash_status
      \<lparr>net = \<lambda>k. Inr \<lparr>status_code = 200,
                          body_json = Inr (JObj [(''state'', JStr ''stopped'')])\<rparr>,
       stdout_encodes = utf8_strict, calls = c, trace = t\<rparr>) = Inr False \<and>
   fst (check_openclash_status
      \<lparr>net = \<lambda>k. Inr \<lparr>status_code = 200,
                          body_json = Inr (JObj [(''foo'', JStr ''bar'')])\<rparr>,
       stdout_encodes = utf8_strict, calls = c, trace = t\<rparr>) = Inr True \<and>
   fst (check_openclash_status
      \<lparr>net = \<lambda>k. Inr \<lparr>status_code = 200, body_json = Inl RaisesValueError\<rparr>,
       stdout_encodes = utf8_strict, calls = c, trace = t\<rparr>) = Inr True"
  by (simp add: check_openclash_status_def prog_defs for_loop_check_field check_field_def
      status_fields_def py_in_def active_values_def py_eq_def unprintable_def
      utf8_strict_def)

text \<open>
  Claim C8, at the input where the code departs from it. The status endpoint answers 200
  with a body that is not JSON and nests deeper than the recursion limit (a hundred
  thousand opening brackets). \<open>response.json()\<close> raises \<open>RecursionError\<close>, which none of
  the handlers of lines 79--94 catches: \<open>check_openclash_status\<close> raises it after its GET,
  writes no log line and returns nothing. (On the three payloads of the claim, and on a
  body the decoder rejects with a \<open>ValueError\<close>, the function returns what the claim
  says: lemma \<open>check_openclash_status_payloads\<close>.)
\<close>

theorem check_openclash_status_recursion_error:
  "check_openclash_status
     \<lparr>net = \<lambda>k. Inr \<lparr>status_code = 200, body_json = Inl RaisesRecursionError\<rparr>,
      stdout_encodes = utf8_strict, calls = 0, trace = []\<rparr> =
   (Inl RecursionError,
    \<lparr>net = \<lambda>k. Inr \<lparr>status_code = 200, body_json = Inl RaisesRecursionError\<rparr>,
     stdout_encodes = utf8_strict, calls = 1,
     trace = [Get OPENCLASH_STATUS_URL TIMEOUT]\<rparr>)"
  by (simp add: check_openclash_status_def prog_defs)

text \<open>
  Claim C10. When the status endpoint answers 200 with a body that decodes to something
  other than a JSON object, \<open>check_openclash_status\<close> returns \<open>True\<close> through the branch
  of line 77: after the GET it writes that one log line, and the loop over the status
  fields is not run.
\<close>

theorem check_openclash_status_non_object:
  assumes "net w (calls w) = Inr r" and "status_code r = 200" and "body_json r = Inr v"
    and "\<forall>d. v \<noteq> JObj d"
  shows "check_openclash_status w =
     (Inr True, w\<lparr>calls := Suc (calls w),
                  trace := trace w @ [Get OPENCLASH_STATUS_URL TIMEOUT, Log 77]\<rparr>)"
  using assms by (cases v) (simp_all add: check_openclash_status_def prog_defs)

theorem check_openclash_status_non_object_witness:
  "check_openclash_status
     \<lparr>net = \<lambda>k. Inr \<lparr>status_code = 200, body_json = Inr (JList [JStr ''stopped''])\<rparr>,
      stdout_encodes = utf8_strict, calls = 0, trace = []\<rparr> =
   (Inr True,
    \<lparr>net = \<lambda>k. Inr \<lparr>status_code = 200, body_json = Inr (JList [JStr ''stopped''])\<rparr>,
     stdout_encodes = utf8_strict, calls = 1, trace = [Get OPENCLASH_STATUS_URL TIMEOUT, Log 77]\<rparr>)"
  using check_openclash_status_non_object
    [of "\<lparr>net = \<lambda>k. Inr \<lparr>status_code = 200,
                             body_json = Inr (JList [JStr ''stopped''])\<rparr>,
          stdout_encodes = utf8_strict, calls = 0, trace = []\<rparr>"
        "\<lparr>status_code = 200, body_json = Inr (JList [JStr ''stopped''])\<rparr>"
        "JList [JStr ''stopped'']"]
  by simp

subsection \<open>Reading traces\<close>

lemma actions_append [simp]: "actions (xs @ ys) = actions xs @ actions ys"
  by (simp add: actions_def)

lemma actions_simps [simp]:
  "actions [] = []"
  "actions (Log l # es) = actions es"
  "actions (Get u t # es) = Get u t # actions es"
  "actions (Sleep n # es) = Sleep n # actions es"
  by (simp_all add: actions_def)

lemma requested_append [simp]: "requested (xs @ ys) = requested xs @ requested ys"
  by (induction xs rule: requested.induct) simp_all

lemma sleeps_append [simp]: "sleeps (xs @ ys) = sleeps xs @ sleeps ys"
  by (induction xs rule: sleeps.induct) simp_all

lemma requested_actions [simp]: "requested (actions es) = requested es"
  by (induction es rule: requested.induct) simp_all

lemma sleeps_actions [simp]: "sleeps (actions es) = sleeps es"
  by (induction es rule: sleeps.induct) simp_all

subsection \<open>The retried sub-operation \<open>execute_request\<close>\<close>

lemma wait_before_retry_run:
  "wait_before_retry a m l n w =
     (Inr (), w\<lparr>trace := trace w @ (if a < m then [Log l, Sleep n] else [])\<rparr>)"
  by (simp add: wait_before_retry_def prog_defs)

lemma execute_attempt_trace:
  "execute_attempt url m a w =
     (Inr (if http_200 (net w (calls w)) then Some True else None),
      w\<lparr>calls := Suc (calls w),
        trace := trace w @ Log 123 # Get url TIMEOUT #
          (case net w (calls w) of
             Inr r \<Rightarrow>
               if status_code r = 200 then [Log 127]
               else Log 130 # (if a < m then [Log 132, Sleep 3] else [])
           | Inl e \<Rightarrow>
               if isinstance_Timeout (RequestExc e)
               then Log 136 # (if a < m then [Log 138, Sleep 3] else [])
               else if isinstance_ConnectionError (RequestExc e)
               then Log 142 # (if a < m then [Log 144, Sleep 5] else [])
               else Log 148 # (if a < m then [Log 150, Sleep 3] else []))\<rparr>)"
proof (cases "net w (calls w)")
  case (Inl e)
  then show ?thesis
    by (cases e)
      (simp_all add: execute_attempt_def prog_defs wait_before_retry_run http_200_def)
next
  case (Inr r)
  then show ?thesis
    by (simp add: execute_attempt_def prog_defs wait_before_retry_run http_200_def)
qed

lemma execute_attempt_run:
  "\<exists>evs. execute_attempt url m a w =
     (Inr (if http_200 (net w (calls w)) then Some True else None),
      w\<lparr>calls := Suc (calls w), trace := trace w @ evs\<rparr>) \<and>
     actions evs = Get url TIMEOUT #
       (if \<not> http_200 (net w (calls w)) \<and> a < m then [Sleep (retry_wait (net w (calls w)))]
        else [])"
proof (intro exI conjI)
  show "execute_attempt url m a w =
     (Inr (if http_200 (net w (calls w)) then Some True else None),
      w\<lparr>calls := Suc (calls w), trace := trace w @ Log 123 # Get url TIMEOUT #
          (case net w (calls w) of
             Inr r \<Rightarrow>
               if status_code r = 200 then [Log 127]
               else Log 130 # (if a < m then [Log 132, Sleep 3] else [])
           | Inl e \<Rightarrow>
               if isinstance_Timeout (RequestExc e)
               then Log 136 # (if a < m then [Log 138, Sleep 3] else [])
               else if isinstance_ConnectionError (RequestExc e)
               then Log 142 # (if a < m then [Log 144, Sleep 5] else [])
               else Log 148 # (if a < m then [Log 150, Sleep 3] else []))\<rparr>)"
    by (rule execute_attempt_trace)
  show "actions (Log 123 # Get url TIMEOUT #
          (case net w (calls w) of
             Inr r \<Rightarrow>
               if status_code r = 200 then [Log 127]
               else Log 130 # (if a < m then [Log 132, Sleep 3] else [])
           | Inl e \<Rightarrow>
               if isinstance_Timeout (RequestExc e)
               then Log 136 # (if a < m then [Log 138, Sleep 3] else [])
               else if isinstance_ConnectionError (RequestExc e)
               then Log 142 # (if a < m then [Log 144, Sleep 5] else [])
               else Log 148 # (if a < m then [Log 150, Sleep 3] else []))) =
        Get url TIMEOUT #
       (if \<not> http_200 (net w (calls w)) \<and> a < m then [Sleep (retry_wait (net w (calls w)))]
        else [])"
    by (simp add: http_200_def retry_wait_def split: sum.splits)
qed

lemma for_loop_all_fail:
  assumes "\<forall>i<length as. \<not> http_200 (net w (calls w + i))"
  shows "\<exists>evs. for_loop as (execute_attempt url m) w =
           (Inr None, w\<lparr>calls := calls w + length as, trace := trace w @ evs\<rparr>) \<and>
         actions evs =
           concat (map (\<lambda>i. Get url TIMEOUT #
                     (if as ! i < m then [Sleep (retry_wait (net w (calls w + i)))] else []))
                   [0..<length as])"
  using assms
proof (induction as arbitrary: w)
  case Nil
  show ?case by (intro exI[of _ "[]"]) simp
next
  case (Cons a as)
  from Cons.prems have fail0: "\<not> http_200 (net w (calls w))" by auto
  obtain evs1 where
    run1: "execute_attempt url m a w =
      (Inr None, w\<lparr>calls := Suc (calls w), trace := trace w @ evs1\<rparr>)"
    and act1: "actions evs1 = Get url TIMEOUT #
       (if a < m then [Sleep (retry_wait (net w (calls w)))] else [])"
    using execute_attempt_run [of url m a w] fail0 by auto
  define w1 where "w1 = w\<lparr>calls := Suc (calls w), trace := trace w @ evs1\<rparr>"
  have "\<forall>i<length as. \<not> http_200 (net w1 (calls w1 + i))"
    using Cons.prems by (auto simp: w1_def)
  from Cons.IH [OF this] obtain evs2 where
    run2: "for_loop as (execute_attempt url m) w1 =
           (Inr None, w1\<lparr>calls := calls w1 + length as, trace := trace w1 @ evs2\<rparr>)"
    and act2: "actions evs2 =
           concat (map (\<lambda>i. Get url TIMEOUT #
                     (if as ! i < m then [Sleep (retry_wait (net w1 (calls w1 + i)))] else []))
                   [0..<length as])"
    by blast
  show ?case
  proof (intro exI[of _ "evs1 @ evs2"] conjI)
    show "for_loop (a # as) (execute_attempt url m) w =
      (Inr None, w\<lparr>calls := calls w + length (a # as), trace := trace w @ evs1 @ evs2\<rparr>)"
      using run1 run2 by (simp add: w1_def)
    show "actions (evs1 @ evs2) =
      concat (map (\<lambda>i. Get url TIMEOUT #
                (if (a # as) ! i < m then [Sleep (retry_wait (net w (calls w + i)))] else []))
              [0..<length (a # as)])"
    proof -
      have "actions evs2 =
           concat (map (\<lambda>i. Get url TIMEOUT #
                     (if as ! i < m then [Sleep (retry_wait (net w (calls w + Suc i)))] else []))
                   [0..<length as])"
        unfolding act2 by (simp add: w1_def cong: if_cong)
      with act1 show ?thesis
        by (simp add: map_upt_Suc del: upt_Suc)
    qed
  qed
qed


lemma for_loop_append:
  "for_loop (xs @ ys) body w =
     (case for_loop xs body w of
        (Inr None, w') \<Rightarrow> for_loop ys body w'
      | r \<Rightarrow> r)"
  by (induction xs arbitrary: w) (auto split: prod.splits sum.splits option.splits)

lemma for_loop_first_success:
  assumes j: "j < length as"
    and fails: "\<forall>i<j. \<not> http_200 (net w (calls w + i))"
    and ok: "http_200 (net w (calls w + j))"
  shows "\<exists>evs. for_loop as (execute_attempt url m) w =
           (Inr (Some True), w\<lparr>calls := calls w + Suc j, trace := trace w @ evs\<rparr>) \<and>
         actions evs =
           concat (map (\<lambda>i. Get url TIMEOUT #
                     (if as ! i < m then [Sleep (retry_wait (net w (calls w + i)))] else []))
                   [0..<j]) @ [Get url TIMEOUT]"
proof -
  have split: "as = take j as @ as ! j # drop (Suc j) as"
    using j by (rule id_take_nth_drop)
  have len: "length (take j as) = j" using j by simp
  from fails have "\<forall>i<length (take j as). \<not> http_200 (net w (calls w + i))"
    by simp
  from for_loop_all_fail [OF this, of url m] obtain evs1 where
    run1: "for_loop (take j as) (execute_attempt url m) w =
           (Inr None, w\<lparr>calls := calls w + j, trace := trace w @ evs1\<rparr>)"
    and act1: "actions evs1 =
           concat (map (\<lambda>i. Get url TIMEOUT #
                     (if take j as ! i < m then [Sleep (retry_wait (net w (calls w + i)))]
                      else []))
                   [0..<j])"
    unfolding len by blast
  define w1 where "w1 = w\<lparr>calls := calls w + j, trace := trace w @ evs1\<rparr>"
  have ok1: "http_200 (net w1 (calls w1))" using ok by (simp add: w1_def)
  obtain evs2 where
    run2: "execute_attempt url m (as ! j) w1 =
      (Inr (Some True), w1\<lparr>calls := Suc (calls w1), trace := trace w1 @ evs2\<rparr>)"
    and act2: "actions evs2 = [Get url TIMEOUT]"
    using execute_attempt_run [of url m "as ! j" w1] ok1 by auto
  have "for_loop as (execute_attempt url m) w =
        for_loop (take j as @ as ! j # drop (Suc j) as) (execute_attempt url m) w"
    using split by simp
  also have "\<dots> = (Inr (Some True), w1\<lparr>calls := Suc (calls w1), trace := trace w1 @ evs2\<rparr>)"
    unfolding for_loop_append using run1 run2 by (simp add: w1_def)
  finally have run: "for_loop as (execute_attempt url m) w =
      (Inr (Some True), w\<lparr>calls := calls w + Suc j, trace := trace w @ evs1 @ evs2\<rparr>)"
    by (simp add: w1_def)
  have "map (\<lambda>i. Get url TIMEOUT #
                     (if take j as ! i < m then [Sleep (retry_wait (net w (calls w + i)))]
                      else [])) [0..<j] =
        map (\<lambda>i. Get url TIMEOUT #
                     (if as ! i < m then [Sleep (retry_wait (net w (calls w + i)))]
                      else [])) [0..<j]"
    by (rule map_cong) simp_all
  with act1 act2 have "actions (evs1 @ evs2) =
           concat (map (\<lambda>i. Get url TIMEOUT #
                     (if as ! i < m then [Sleep (retry_wait (net w (calls w + i)))] else []))
                   [0..<j]) @ [Get url TIMEOUT]"
    by simp
  with run show ?thesis by blast
qed

lemma for_loop_attempts_total:
  "\<exists>r n evs. for_loop as (execute_attempt url m) w =
     (Inr r, w\<lparr>calls := calls w + n, trace := trace w @ evs\<rparr>)"
proof (induction as arbitrary: w)
  case Nil
  show ?case by (intro exI[of _ None] exI[of _ 0] exI[of _ "[]"]) simp
next
  case (Cons a as)
  obtain evs1 where
    run1: "execute_attempt url m a w =
      (Inr (if http_200 (net w (calls w)) then Some True else None),
       w\<lparr>calls := Suc (calls w), trace := trace w @ evs1\<rparr>)"
    using execute_attempt_run [of url m a w] by blast
  show ?case
  proof (cases "http_200 (net w (calls w))")
    case True
    with run1 show ?thesis
      by (intro exI[of _ "Some True"] exI[of _ 1] exI[of _ evs1]) simp
  next
    case False
    define w1 where "w1 = w\<lparr>calls := Suc (calls w), trace := trace w @ evs1\<rparr>"
    from Cons.IH [of w1] obtain r n evs2 where
      "for_loop as (execute_attempt url m) w1 =
         (Inr r, w1\<lparr>calls := calls w1 + n, trace := trace w1 @ evs2\<rparr>)"
      by blast
    with run1 False show ?thesis
      by (intro exI[of _ r] exI[of _ "Suc n"] exI[of _ "evs1 @ evs2"]) (simp add: w1_def)
  qed
qed

lemma execute_request_total:
  "\<exists>b n evs. execute_request url m w =
     (Inr b, w\<lparr>calls := calls w + n, trace := trace w @ evs\<rparr>)"
proof -
  obtain r n evs where
    run: "for_loop [1..m] (execute_attempt url m) w =
     (Inr r, w\<lparr>calls := calls w + n, trace := trace w @ evs\<rparr>)"
    using for_loop_attempts_total by blast
  show ?thesis
  proof (cases r)
    case None
    with run show ?thesis
      by (intro exI[of _ False] exI[of _ n] exI[of _ "evs @ [Log 153]"])
         (simp add: execute_request_def prog_defs)
  next
    case (Some b)
    with run show ?thesis
      by (intro exI[of _ b] exI[of _ n] exI[of _ evs])
         (simp add: execute_request_def prog_defs)
  qed
qed

lemma execute_request_all_fail:
  assumes "\<forall>k<nat N. \<not> http_200 (net w (calls w + k))"
  shows "\<exists>evs. execute_request url N w =
           (Inr False, w\<lparr>calls := calls w + nat N, trace := trace w @ evs @ [Log 153]\<rparr>) \<and>
         actions evs =
           concat (map (\<lambda>k. Get url TIMEOUT #
                     (if int k + 1 < N then [Sleep (retry_wait (net w (calls w + k)))]
                      else []))
                   [0..<nat N])"
proof -
  from assms have "\<forall>i<length [1..N]. \<not> http_200 (net w (calls w + i))"
    by simp
  from for_loop_all_fail [OF this, of url N] obtain evs where
    run: "for_loop [1..N] (execute_attempt url N) w =
           (Inr None, w\<lparr>calls := calls w + nat N, trace := trace w @ evs\<rparr>)"
    and act: "actions evs =
           concat (map (\<lambda>i. Get url TIMEOUT #
                     (if [1..N] ! i < N then [Sleep (retry_wait (net w (calls w + i)))]
                      else []))
                   [0..<nat N])"
    by auto
  have "map (\<lambda>i. Get url TIMEOUT #
                     (if [1..N] ! i < N then [Sleep (retry_wait (net w (calls w + i)))]
                      else [])) [0..<nat N] =
        map (\<lambda>k. Get url TIMEOUT #
                     (if int k + 1 < N then [Sleep (retry_wait (net w (calls w + k)))]
                      else [])) [0..<nat N]"
    by (rule map_cong) (simp_all add: add.commute)
  with act have "actions evs =
           concat (map (\<lambda>k. Get url TIMEOUT #
                     (if int k + 1 < N then [Sleep (retry_wait (net w (calls w + k)))]
                      else []))
                   [0..<nat N])"
    by simp
  moreover from run have "execute_request url N w =
           (Inr False, w\<lparr>calls := calls w + nat N, trace := trace w @ evs @ [Log 153]\<rparr>)"
    by (simp add: execute_request_def prog_defs)
  ultimately show ?thesis by blast
qed

lemma execute_request_first_success:
  assumes j: "j < nat N"
    and fails: "\<forall>k<j. \<not> http_200 (net w (calls w + k))"
    and ok: "http_200 (net w (calls w + j))"
  shows "\<exists>evs. execute_request url N w =
           (Inr True, w\<lparr>calls := calls w + Suc j, trace := trace w @ evs\<rparr>) \<and>
         actions evs =
           concat (map (\<lambda>k. [Get url TIMEOUT, Sleep (retry_wait (net w (calls w + k)))])
                   [0..<j]) @ [Get url TIMEOUT]"
proof -
  from j have "j < length [1..N]" by simp
  from for_loop_first_success [OF this fails ok, of url N] obtain evs where
    run: "for_loop [1..N] (execute_attempt url N) w =
           (Inr (Some True), w\<lparr>calls := calls w + Suc j, trace := trace w @ evs\<rparr>)"
    and act: "actions evs =
           concat (map (\<lambda>i. Get url TIMEOUT #
                     (if [1..N] ! i < N then [Sleep (retry_wait (net w (calls w + i)))]
                      else []))
                   [0..<j]) @ [Get url TIMEOUT]"
    by auto
  have "map (\<lambda>i. Get url TIMEOUT #
                     (if [1..N] ! i < N then [Sleep (retry_wait (net w (calls w + i)))]
                      else [])) [0..<j] =
        map (\<lambda>k. [Get url TIMEOUT, Sleep (retry_wait (net w (calls w + k)))]) [0..<j]"
    using j by (intro map_cong) auto
  with act have "actions evs =
           concat (map (\<lambda>k. [Get url TIMEOUT, Sleep (retry_wait (net w (calls w + k)))])
                   [0..<j]) @ [Get url TIMEOUT]"
    by simp
  moreover from run have "execute_request url N w =
           (Inr True, w\<lparr>calls := calls w + Suc j, trace := trace w @ evs\<rparr>)"
    by (simp add: execute_request_def prog_defs)
  ultimately show ?thesis by blast
qed

lemma sleeps_attempts:
  "sleeps (concat (map (\<lambda>k. Get url t # (if P k then [Sleep (f k)] else [])) ks)) =
     map f (filter P ks)"
  by (induction ks) simp_all

lemma sleeps_retries:
  "sleeps (concat (map (\<lambda>k. [Get url t, Sleep (f k)]) ks)) = map f ks"
  by (induction ks) simp_all

lemma filter_not_last_attempt:
  assumes "1 \<le> N"
  shows "filter (\<lambda>k. int k + 1 < N) [0..<nat N] = [0..<nat N - 1]"
proof -
  from assms have suc: "nat N = Suc (nat N - 1)" by simp
  have "[0..<nat N] = [0..<nat N - 1] @ [nat N - 1]"
    by (subst suc) simp
  moreover have "filter (\<lambda>k. int k + 1 < N) [0..<nat N - 1] = [0..<nat N - 1]"
    by (rule filter_True) auto
  moreover from assms have "\<not> int (nat N - 1) + 1 < N" by simp
  ultimately show ?thesis by simp
qed

lemma requested_attempts:
  "requested (concat (map (\<lambda>k. Get url t # (if P k then [Sleep (f k)] else [])) ks)) =
     replicate (length ks) url"
  by (induction ks) simp_all

lemma requested_retries:
  "requested (concat (map (\<lambda>k. [Get url t, Sleep (f k)]) ks)) = replicate (length ks) url"
  by (induction ks) simp_all

text \<open>
  Claim C3. For a retry bound \<open>N \<ge> 1\<close>: when the request fails on each of the \<open>N\<close>
  attempts (an exception or a status other than 200), \<open>execute_request\<close> issues exactly
  \<open>N\<close> GETs to its URL and returns \<open>False\<close>; when attempt \<open>j + 1\<close> is the first to
  get status 200, it returns \<open>True\<close> after exactly \<open>j + 1\<close> GETs and issues no more.
\<close>

theorem execute_request_attempt_count:
  assumes "1 \<le> N"
  shows "((\<forall>k<nat N. \<not> http_200 (net w (calls w + k))) \<longrightarrow>
            (\<exists>evs. execute_request url N w =
                     (Inr False, w\<lparr>calls := calls w + nat N, trace := trace w @ evs\<rparr>) \<and>
                   requested evs = replicate (nat N) url)) \<and>
         (\<forall>j<nat N. (\<forall>k<j. \<not> http_200 (net w (calls w + k))) \<and>
                     http_200 (net w (calls w + j)) \<longrightarrow>
            (\<exists>evs. execute_request url N w =
                     (Inr True, w\<lparr>calls := calls w + Suc j, trace := trace w @ evs\<rparr>) \<and>
                   requested evs = replicate (Suc j) url))"
proof (intro conjI impI allI)
  assume "\<forall>k<nat N. \<not> http_200 (net w (calls w + k))"
  from execute_request_all_fail [OF this, of url] obtain evs where
    run: "execute_request url N w =
           (Inr False, w\<lparr>calls := calls w + nat N, trace := trace w @ evs @ [Log 153]\<rparr>)"
    and act: "actions evs =
           concat (map (\<lambda>k. Get url TIMEOUT #
                     (if int k + 1 < N then [Sleep (retry_wait (net w (calls w + k)))]
                      else []))
                   [0..<nat N])"
    by blast
  have "requested (actions evs) = replicate (nat N) url"
    unfolding act by (simp add: requested_attempts)
  then have "requested (evs @ [Log 153]) = replicate (nat N) url"
    by simp
  with run show "\<exists>evs. execute_request url N w =
                     (Inr False, w\<lparr>calls := calls w + nat N, trace := trace w @ evs\<rparr>) \<and>
                   requested evs = replicate (nat N) url"
    by blast
next
  fix j
  assume j: "j < nat N"
    and "(\<forall>k<j. \<not> http_200 (net w (calls w + k))) \<and> http_200 (net w (calls w + j))"
  then have fails: "\<forall>k<j. \<not> http_200 (net w (calls w + k))"
    and ok: "http_200 (net w (calls w + j))"
    by simp_all
  from execute_request_first_success [OF j fails ok, of url] obtain evs where
    run: "execute_request url N w =
           (Inr True, w\<lparr>calls := calls w + Suc j, trace := trace w @ evs\<rparr>)"
    and act: "actions evs =
           concat (map (\<lambda>k. [Get url TIMEOUT, Sleep (retry_wait (net w (calls w + k)))])
                   [0..<j]) @ [Get url TIMEOUT]"
    by blast
  have "requested (actions evs) = replicate (Suc j) url"
    unfolding act by (simp add: requested_retries replicate_append_same)
  then have "requested evs = replicate (Suc j) url"
    by simp
  with run show "\<exists>evs. execute_request url N w =
                     (Inr True, w\<lparr>calls := calls w + Suc j, trace := trace w @ evs\<rparr>) \<and>
                   requested evs = replicate (Suc j) url"
    by blast
qed

theorem execute_request_attempt_count_witness:
  "(\<exists>evs. execute_request ''u'' 3 \<lparr>net = \<lambda>k. Inl ConnectionError, stdout_encodes = utf8_strict, calls = 0, trace = []\<rparr> =
            (Inr False, \<lparr>net = \<lambda>k. Inl ConnectionError, stdout_encodes = utf8_strict, calls = 3, trace = evs\<rparr>) \<and>
          requested evs = [''u'', ''u'', ''u'']) \<and>
   (\<exists>evs. execute_request ''u'' 3
            \<lparr>net = \<lambda>k. if k = 1 then Inr \<lparr>status_code = 200, body_json = Inl RaisesValueError\<rparr>
                       else Inl Timeout, stdout_encodes = utf8_strict, calls = 0, trace = []\<rparr> =
            (Inr True,
             \<lparr>net = \<lambda>k. if k = 1 then Inr \<lparr>status_code = 200, body_json = Inl RaisesValueError\<rparr>
                       else Inl Timeout, stdout_encodes = utf8_strict, calls = 2, trace = evs\<rparr>) \<and>
          requested evs = [''u'', ''u''])"
  using execute_request_attempt_count
      [of 3 "\<lparr>net = \<lambda>k. Inl ConnectionError, stdout_encodes = utf8_strict, calls = 0, trace = []\<rparr>" "''u''"]
    execute_request_attempt_count
      [of 3 "\<lparr>net = \<lambda>k. if k = 1 then Inr \<lparr>status_code = 200, body_json = Inl RaisesValueError\<rparr>
                       else Inl Timeout, stdout_encodes = utf8_strict, calls = 0, trace = []\<rparr>" "''u''",
       THEN conjunct2, rule_format, of 1]
  by (simp add: http_200_def numeral_3_eq_3 numeral_2_eq_2)


text \<open>
  Claim C4. Between two attempts \<open>execute_request\<close> sleeps for \<open>retry_wait\<close> of the
  failed attempt's outcome: 3 after a timeout, 5 after a connection error, 3 after any
  other exception of the request and after a status other than 200. (The \<open>Timeout\<close>
  clause comes first in the source, so a connect timeout, which the library derives from
  both classes, waits 3.) After the last of \<open>N\<close> failed attempts there is no sleep: the
  function writes the log line of line 153 and returns \<open>False\<close>. The actions listed are
  all the GETs and sleeps of the run, in order; the sleeps alone are one for each failed
  attempt but the last of \<open>N\<close>.
\<close>

theorem execute_request_retry_waits:
  assumes "1 \<le> N"
  shows "((\<forall>k<nat N. \<not> http_200 (net w (calls w + k))) \<longrightarrow>
            (\<exists>evs. execute_request url N w =
                     (Inr False,
                      w\<lparr>calls := calls w + nat N, trace := trace w @ evs @ [Log 153]\<rparr>) \<and>
                   actions evs =
                     concat (map (\<lambda>k. Get url TIMEOUT #
                               (if int k + 1 < N
                                then [Sleep (retry_wait (net w (calls w + k)))]
                                else []))
                             [0..<nat N]) \<and>
                   sleeps evs =
                     map (\<lambda>k. retry_wait (net w (calls w + k))) [0..<nat N - 1])) \<and>
         (\<forall>j<nat N. (\<forall>k<j. \<not> http_200 (net w (calls w + k))) \<and>
                     http_200 (net w (calls w + j)) \<longrightarrow>
            (\<exists>evs. execute_request url N w =
                     (Inr True, w\<lparr>calls := calls w + Suc j, trace := trace w @ evs\<rparr>) \<and>
                   actions evs =
                     concat (map (\<lambda>k. [Get url TIMEOUT,
                                        Sleep (retry_wait (net w (calls w + k)))])
                             [0..<j]) @ [Get url TIMEOUT] \<and>
                   sleeps evs = map (\<lambda>k. retry_wait (net w (calls w + k))) [0..<j]))"
proof (intro conjI impI allI)
  assume "\<forall>k<nat N. \<not> http_200 (net w (calls w + k))"
  from execute_request_all_fail [OF this, of url] obtain evs where
    run: "execute_request url N w =
           (Inr False, w\<lparr>calls := calls w + nat N, trace := trace w @ evs @ [Log 153]\<rparr>)"
    and act: "actions evs =
           concat (map (\<lambda>k. Get url TIMEOUT #
                     (if int k + 1 < N then [Sleep (retry_wait (net w (calls w + k)))]
                      else []))
                   [0..<nat N])"
    by blast
  have "sleeps (actions evs) = map (\<lambda>k. retry_wait (net w (calls w + k))) [0..<nat N - 1]"
    unfolding act by (simp add: sleeps_attempts filter_not_last_attempt [OF assms])
  then have "sleeps evs = map (\<lambda>k. retry_wait (net w (calls w + k))) [0..<nat N - 1]"
    by simp
  with run act show "\<exists>evs. execute_request url N w =
                     (Inr False,
                      w\<lparr>calls := calls w + nat N, trace := trace w @ evs @ [Log 153]\<rparr>) \<and>
                   actions evs =
                     concat (map (\<lambda>k. Get url TIMEOUT #
                               (if int k + 1 < N
                                then [Sleep (retry_wait (net w (calls w + k)))]
                                else []))
                             [0..<nat N]) \<and>
                   sleeps evs =
                     map (\<lambda>k. retry_wait (net w (calls w + k))) [0..<nat N - 1]"
    by blast
next
  fix j
  assume j: "j < nat N"
    and "(\<forall>k<j. \<not> http_200 (net w (calls w + k))) \<and> http_200 (net w (calls w + j))"
  then have fails: "\<forall>k<j. \<not> http_200 (net w (calls w + k))"
    and ok: "http_200 (net w (calls w + j))"
    by simp_all
  from execute_request_first_success [OF j fails ok, of url] obtain evs where
    run: "execute_request url N w =
           (Inr True, w\<lparr>calls := calls w + Suc j, trace := trace w @ evs\<rparr>)"
    and act: "actions evs =
           concat (map (\<lambda>k. [Get url TIMEOUT, Sleep (retry_wait (net w (calls w + k)))])
                   [0..<j]) @ [Get url TIMEOUT]"
    by blast
  have "sleeps (actions evs) = map (\<lambda>k. retry_wait (net w (calls w + k))) [0..<j]"
    unfolding act by (simp add: sleeps_retries)
  then have "sleeps evs = map (\<lambda>k. retry_wait (net w (calls w + k))) [0..<j]"
    by simp
  with run act show "\<exists>evs. execute_request url N w =
                     (Inr True, w\<lparr>calls := calls w + Suc j, trace := trace w @ evs\<rparr>) \<and>
                   actions evs =
                     concat (map (\<lambda>k. [Get url TIMEOUT,
                                        Sleep (retry_wait (net w (calls w + k)))])
                             [0..<j]) @ [Get url TIMEOUT] \<and>
                   sleeps evs = map (\<lambda>k. retry_wait (net w (calls w + k))) [0..<j]"
    by blast
qed

theorem execute_request_retry_waits_witness:
  "(\<exists>evs. execute_request ''u'' 4
            \<lparr>net = \<lambda>k. if k = 0 then Inl ConnectionError
                       else if k = 1 then Inl Timeout
                       else if k = 2 then Inl ConnectTimeout
                       else Inr \<lparr>status_code = 503, body_json = Inl RaisesValueError\<rparr>,
             stdout_encodes = utf8_strict, calls = 0, trace = []\<rparr> =
            (Inr False,
             \<lparr>net = \<lambda>k. if k = 0 then Inl ConnectionError
                       else if k = 1 then Inl Timeout
                       else if k = 2 then Inl ConnectTimeout
                       else Inr \<lparr>status_code = 503, body_json = Inl RaisesValueError\<rparr>,
              stdout_encodes = utf8_strict, calls = 4, trace = evs @ [Log 153]\<rparr>) \<and>
          actions evs =
            [Get ''u'' TIMEOUT, Sleep 5, Get ''u'' TIMEOUT, Sleep 3, Get ''u'' TIMEOUT, Sleep 3,
             Get ''u'' TIMEOUT] \<and>
          sleeps evs = [5, 3, 3]) \<and>
   (\<exists>evs. execute_request ''u'' 3
            \<lparr>net = \<lambda>k. if k = 0 then Inr \<lparr>status_code = 404, body_json = Inl RaisesValueError\<rparr>
                       else Inr \<lparr>status_code = 200, body_json = Inl RaisesValueError\<rparr>,
             stdout_encodes = utf8_strict, calls = 0, trace = []\<rparr> =
            (Inr True,
             \<lparr>net = \<lambda>k. if k = 0 then Inr \<lparr>status_code = 404, body_json = Inl RaisesValueError\<rparr>
                       else Inr \<lparr>status_code = 200, body_json = Inl RaisesValueError\<rparr>,
              stdout_encodes = utf8_strict, calls = 2, trace = evs\<rparr>) \<and>
          actions evs = [Get ''u'' TIMEOUT, Sleep 3, Get ''u'' TIMEOUT] \<and>
          sleeps evs = [3])"
  using execute_request_retry_waits
      [of 4 "\<lparr>net = \<lambda>k. if k = 0 then Inl ConnectionError
                       else if k = 1 then Inl Timeout
                       else if k = 2 then Inl ConnectTimeout
                       else Inr \<lparr>status_code = 503, body_json = Inl RaisesValueError\<rparr>,
             stdout_encodes = utf8_strict, calls = 0, trace = []\<rparr>" "''u''"]
    execute_request_retry_waits
      [of 3 "\<lparr>net = \<lambda>k. if k = 0 then Inr \<lparr>status_code = 404, body_json = Inl RaisesValueError\<rparr>
                       else Inr \<lparr>status_code = 200, body_json = Inl RaisesValueError\<rparr>,
             stdout_encodes = utf8_strict, calls = 0, trace = []\<rparr>" "''u''",
       THEN conjunct2, rule_format, of 1]
  by (simp add: http_200_def retry_wait_def numeral_3_eq_3 numeral_2_eq_2 eval_nat_numeral)

subsection \<open>The restart sequence\<close>

lemma execute_request_False_iff:
  "fst (execute_request url N w) = Inr False \<longleftrightarrow>
     (\<forall>k<nat N. \<not> http_200 (net w (calls w + k)))"
proof
  assume "\<forall>k<nat N. \<not> http_200 (net w (calls w + k))"
  from execute_request_all_fail [OF this, of url]
  show "fst (execute_request url N w) = Inr False" by auto
next
  assume res: "fst (execute_request url N w) = Inr False"
  show "\<forall>k<nat N. \<not> http_200 (net w (calls w + k))"
  proof (rule ccontr)
    assume "\<not> (\<forall>k<nat N. \<not> http_200 (net w (calls w + k)))"
    then have ex: "\<exists>k. k < nat N \<and> http_200 (net w (calls w + k))" by blast
    define j where "j = (LEAST k. k < nat N \<and> http_200 (net w (calls w + k)))"
    from ex have "j < nat N \<and> http_200 (net w (calls w + j))"
      unfolding j_def by (rule LeastI_ex)
    moreover have "\<forall>k<j. \<not> http_200 (net w (calls w + k))"
    proof (intro allI impI)
      fix k assume "k < j"
      then have "\<not> (k < nat N \<and> http_200 (net w (calls w + k)))"
        unfolding j_def by (rule not_less_Least)
      moreover from \<open>k < j\<close> \<open>j < nat N \<and> _\<close> have "k < nat N" by simp
      ultimately show "\<not> http_200 (net w (calls w + k))" by simp
    qed
    ultimately obtain evs where "execute_request url N w =
           (Inr True, w\<lparr>calls := calls w + Suc j, trace := trace w @ evs\<rparr>)"
      using execute_request_first_success [of j N w url] by blast
    with res show False by simp
  qed
qed

lemma restart_settle_run:
  "restart_settle w = (Inr True, w\<lparr>trace := trace w @ [Log 181, Sleep 10, Log 184]\<rparr>)"
  by (simp add: restart_settle_def prog_defs)

lemma restart_openclash_run:
  "(let stop = execute_request OPENCLASH_DOWN_URL 3
                 (w\<lparr>trace := trace w @ [Log 157, Log 160]\<rparr>);
        start = execute_request OPENCLASH_UP_URL 3
                  ((snd stop)\<lparr>trace := trace (snd stop) @ [Log 166, Sleep 5, Log 170]\<rparr>);
        again = execute_request OPENCLASH_UP_URL 2
                  ((snd start)\<lparr>trace := trace (snd start) @ [Log 172, Log 174, Sleep 3]\<rparr>)
    in restart_openclash w =
         (if fst stop = Inr False
          then (Inr False, (snd stop)\<lparr>trace := trace (snd stop) @ [Log 162]\<rparr>)
          else if fst start = Inr True
          then (Inr True,
                (snd start)\<lparr>trace := trace (snd start) @ [Log 181, Sleep 10, Log 184]\<rparr>)
          else if fst again = Inr True
          then (Inr True,
                (snd again)\<lparr>trace := trace (snd again) @ [Log 181, Sleep 10, Log 184]\<rparr>)
          else (Inr False, (snd again)\<lparr>trace := trace (snd again) @ [Log 177]\<rparr>)))"
proof -
  define w0 where "w0 = w\<lparr>trace := trace w @ [Log 157, Log 160]\<rparr>"
  obtain b1 w1 where stop: "execute_request OPENCLASH_DOWN_URL 3 w0 = (Inr b1, w1)"
    using execute_request_total [of OPENCLASH_DOWN_URL 3 w0] by blast
  define w1' where "w1' = w1\<lparr>trace := trace w1 @ [Log 166, Sleep 5, Log 170]\<rparr>"
  obtain b2 w2 where start: "execute_request OPENCLASH_UP_URL 3 w1' = (Inr b2, w2)"
    using execute_request_total [of OPENCLASH_UP_URL 3 w1'] by blast
  define w2' where "w2' = w2\<lparr>trace := trace w2 @ [Log 172, Log 174, Sleep 3]\<rparr>"
  obtain b3 w3 where again: "execute_request OPENCLASH_UP_URL 2 w2' = (Inr b3, w3)"
    using execute_request_total [of OPENCLASH_UP_URL 2 w2'] by blast
  have "restart_openclash w =
         (if \<not> b1 then (Inr False, w1\<lparr>trace := trace w1 @ [Log 162]\<rparr>)
          else if b2 then (Inr True, w2\<lparr>trace := trace w2 @ [Log 181, Sleep 10, Log 184]\<rparr>)
          else if b3 then (Inr True, w3\<lparr>trace := trace w3 @ [Log 181, Sleep 10, Log 184]\<rparr>)
          else (Inr False, w3\<lparr>trace := trace w3 @ [Log 177]\<rparr>))"
    using stop start again
    by (simp add: restart_openclash_def prog_defs restart_settle_run
        w0_def [symmetric] w1'_def [symmetric] w2'_def [symmetric])
  then show ?thesis
    using stop start again
    by (simp add: Let_def w0_def [symmetric] w1'_def [symmetric] w2'_def [symmetric])
qed


lemma execute_request_requests:
  "\<exists>b n evs. execute_request url N w =
     (Inr b, w\<lparr>calls := calls w + n, trace := trace w @ evs\<rparr>) \<and>
     requested evs = replicate n url \<and> (b \<or> n = nat N)"
proof (cases "\<forall>k<nat N. \<not> http_200 (net w (calls w + k))")
  case True
  from execute_request_all_fail [OF this, of url] obtain evs where
    run: "execute_request url N w =
           (Inr False, w\<lparr>calls := calls w + nat N, trace := trace w @ evs @ [Log 153]\<rparr>)"
    and act: "actions evs =
           concat (map (\<lambda>k. Get url TIMEOUT #
                     (if int k + 1 < N then [Sleep (retry_wait (net w (calls w + k)))]
                      else []))
                   [0..<nat N])"
    by blast
  have "requested (actions evs) = replicate (nat N) url"
    unfolding act by (simp add: requested_attempts)
  then have "requested (evs @ [Log 153]) = replicate (nat N) url" by simp
  with run show ?thesis by blast
next
  case False
  then have ex: "\<exists>k. k < nat N \<and> http_200 (net w (calls w + k))" by blast
  define j where "j = (LEAST k. k < nat N \<and> http_200 (net w (calls w + k)))"
  from ex have j: "j < nat N \<and> http_200 (net w (calls w + j))"
    unfolding j_def by (rule LeastI_ex)
  have "\<forall>k<j. \<not> http_200 (net w (calls w + k))"
  proof (intro allI impI)
    fix k assume "k < j"
    then have "\<not> (k < nat N \<and> http_200 (net w (calls w + k)))"
      unfolding j_def by (rule not_less_Least)
    moreover from \<open>k < j\<close> j have "k < nat N" by simp
    ultimately show "\<not> http_200 (net w (calls w + k))" by simp
  qed
  with j obtain evs where
    run: "execute_request url N w =
           (Inr True, w\<lparr>calls := calls w + Suc j, trace := trace w @ evs\<rparr>)"
    and act: "actions evs =
           concat (map (\<lambda>k. [Get url TIMEOUT, Sleep (retry_wait (net w (calls w + k)))])
                   [0..<j]) @ [Get url TIMEOUT]"
    using execute_request_first_success [of j N w url] by blast
  have "requested (actions evs) = replicate (Suc j) url"
    unfolding act by (simp add: requested_retries replicate_append_same)
  then have "requested evs = replicate (Suc j) url" by simp
  with run show ?thesis by blast
qed

lemma restart_openclash_total:
  "\<exists>b n evs. restart_openclash w =
     (Inr b, w\<lparr>calls := calls w + n, trace := trace w @ evs\<rparr>)"
proof -
  define w0 where "w0 = w\<lparr>trace := trace w @ [Log 157, Log 160]\<rparr>"
  obtain b1 n1 e1 where stop: "execute_request OPENCLASH_DOWN_URL 3 w0 =
      (Inr b1, w0\<lparr>calls := calls w0 + n1, trace := trace w0 @ e1\<rparr>)"
    using execute_request_total [of OPENCLASH_DOWN_URL 3 w0] by blast
  define w1 where "w1 = w0\<lparr>calls := calls w0 + n1,
      trace := trace w0 @ e1 @ [Log 166, Sleep 5, Log 170]\<rparr>"
  obtain b2 n2 e2 where start: "execute_request OPENCLASH_UP_URL 3 w1 =
      (Inr b2, w1\<lparr>calls := calls w1 + n2, trace := trace w1 @ e2\<rparr>)"
    using execute_request_total [of OPENCLASH_UP_URL 3 w1] by blast
  define w2 where "w2 = w1\<lparr>calls := calls w1 + n2,
      trace := trace w1 @ e2 @ [Log 172, Log 174, Sleep 3]\<rparr>"
  obtain b3 n3 e3 where again: "execute_request OPENCLASH_UP_URL 2 w2 =
      (Inr b3, w2\<lparr>calls := calls w2 + n3, trace := trace w2 @ e3\<rparr>)"
    using execute_request_total [of OPENCLASH_UP_URL 2 w2] by blast
  have run: "restart_openclash w =
     (if \<not> b1
      then (Inr False, w\<lparr>calls := calls w + n1,
                         trace := trace w @ [Log 157, Log 160] @ e1 @ [Log 162]\<rparr>)
      else if b2
      then (Inr True, w\<lparr>calls := calls w + (n1 + n2),
                        trace := trace w @ [Log 157, Log 160] @ e1 @
                          [Log 166, Sleep 5, Log 170] @ e2 @ [Log 181, Sleep 10, Log 184]\<rparr>)
      else if b3
      then (Inr True, w\<lparr>calls := calls w + (n1 + n2 + n3),
                        trace := trace w @ [Log 157, Log 160] @ e1 @
                          [Log 166, Sleep 5, Log 170] @ e2 @ [Log 172, Log 174, Sleep 3] @ e3 @
                          [Log 181, Sleep 10, Log 184]\<rparr>)
      else (Inr False, w\<lparr>calls := calls w + (n1 + n2 + n3),
                        trace := trace w @ [Log 157, Log 160] @ e1 @
                          [Log 166, Sleep 5, Log 170] @ e2 @ [Log 172, Log 174, Sleep 3] @ e3 @
                          [Log 177]\<rparr>))"
    using restart_openclash_run [of w] stop start again
    by (simp add: Let_def w0_def [symmetric] w1_def w2_def) (simp add: w0_def)
  show ?thesis
    unfolding run by (simp; blast)
qed

text \<open>
  Claim C2. \<open>restart_openclash\<close> raises nothing and runs this sequence. It runs the stop
  sub-operation, \<open>execute_request\<close> on the down URL with bound 3. If stop returns \<open>False\<close>
  it returns \<open>False\<close> at once: all the requests of the restart are the three to the down
  URL, and none goes to the up URL. Otherwise it sleeps 5 and runs the start
  sub-operation, \<open>execute_request\<close> on the up URL with bound 3. If start returns \<open>True\<close>
  it sleeps 10 and returns \<open>True\<close>. Otherwise it sleeps 3 and runs the fallback start,
  \<open>execute_request\<close> on the up URL with bound 2: when that returns \<open>True\<close> it sleeps 10
  and returns \<open>True\<close>, and when not it returns \<open>False\<close>. Each sub-operation is run in
  the world its predecessor left, and the trace of the whole is the traces of the
  sub-operations joined by the log lines and sleeps listed.
\<close>

theorem restart_openclash_sequence:
  "(let stop = execute_request OPENCLASH_DOWN_URL 3
                 (w\<lparr>trace := trace w @ [Log 157, Log 160]\<rparr>);
        start = execute_request OPENCLASH_UP_URL 3
                  ((snd stop)\<lparr>trace := trace (snd stop) @ [Log 166, Sleep 5, Log 170]\<rparr>);
        again = execute_request OPENCLASH_UP_URL 2
                  ((snd start)\<lparr>trace := trace (snd start) @ [Log 172, Log 174, Sleep 3]\<rparr>)
    in restart_openclash w =
         (if fst stop = Inr False
          then (Inr False, (snd stop)\<lparr>trace := trace (snd stop) @ [Log 162]\<rparr>)
          else if fst start = Inr True
          then (Inr True,
                (snd start)\<lparr>trace := trace (snd start) @ [Log 181, Sleep 10, Log 184]\<rparr>)
          else if fst again = Inr True
          then (Inr True,
                (snd again)\<lparr>trace := trace (snd again) @ [Log 181, Sleep 10, Log 184]\<rparr>)
          else (Inr False, (snd again)\<lparr>trace := trace (snd again) @ [Log 177]\<rparr>)) \<and>
       (fst stop = Inr False \<longrightarrow>
          requested (trace (snd (restart_openclash w))) =
            requested (trace w) @ replicate 3 OPENCLASH_DOWN_URL))"
proof -
  define w0 where "w0 = w\<lparr>trace := trace w @ [Log 157, Log 160]\<rparr>"
  obtain b n evs where stop: "execute_request OPENCLASH_DOWN_URL 3 w0 =
      (Inr b, w0\<lparr>calls := calls w0 + n, trace := trace w0 @ evs\<rparr>)"
    and req: "requested evs = replicate n OPENCLASH_DOWN_URL" and n: "b \<or> n = nat 3"
    using execute_request_requests [of OPENCLASH_DOWN_URL 3 w0] by blast
  have "requested (trace (snd (restart_openclash w))) =
            requested (trace w) @ replicate 3 OPENCLASH_DOWN_URL" if "\<not> b"
    using restart_openclash_run [of w] stop req n that
    by (simp add: Let_def w0_def [symmetric]) (simp add: w0_def)
  with restart_openclash_run [of w] stop show ?thesis
    by (simp add: Let_def w0_def [symmetric])
qed


theorem restart_openclash_sequence_witness:
  "fst (restart_openclash \<lparr>net = \<lambda>k. Inl ConnectionError, stdout_encodes = utf8_strict, calls = 0, trace = []\<rparr>) =
     Inr False \<and>
   requested (trace (snd (restart_openclash
       \<lparr>net = \<lambda>k. Inl ConnectionError, stdout_encodes = utf8_strict, calls = 0, trace = []\<rparr>))) =
     [OPENCLASH_DOWN_URL, OPENCLASH_DOWN_URL, OPENCLASH_DOWN_URL]"
proof -
  have "fst (execute_request OPENCLASH_DOWN_URL 3
          \<lparr>net = \<lambda>k. Inl ConnectionError, stdout_encodes = utf8_strict, calls = 0, trace = [Log 157, Log 160]\<rparr>) =
        Inr False"
    unfolding execute_request_False_iff by (simp add: http_200_def)
  note stop = this
  note seq = restart_openclash_sequence
    [of "\<lparr>net = \<lambda>k. Inl ConnectionError, stdout_encodes = utf8_strict, calls = 0, trace = []\<rparr>", unfolded Let_def]
  from seq [THEN conjunct1] stop
  have "fst (restart_openclash \<lparr>net = \<lambda>k. Inl ConnectionError, stdout_encodes = utf8_strict, calls = 0, trace = []\<rparr>) =
     Inr False"
    by simp
  moreover from seq [THEN conjunct2] stop
  have "requested (trace (snd (restart_openclash
       \<lparr>net = \<lambda>k. Inl ConnectionError, stdout_encodes = utf8_strict, calls = 0, trace = []\<rparr>))) =
     [OPENCLASH_DOWN_URL, OPENCLASH_DOWN_URL, OPENCLASH_DOWN_URL]"
    by (simp add: numeral_3_eq_3)
  ultimately show ?thesis by simp
qed

subsection \<open>The orchestrator \<open>main\<close>\<close>

lemma actions_map_Log [simp]: "actions (map Log ls) = []"
  by (induction ls) simp_all

lemma requested_map_Log [simp]: "requested (map Log ls) = []"
  by (induction ls) simp_all

lemma status_result_cases:
  "(\<exists>b. status_result encodes out = Inr b) \<or> status_result encodes out = Inl RecursionError"
  by (auto simp add: status_result_def
      split: sum.splits json_raises.splits json.splits option.splits)

lemma upto_MAX_RETRIES: "[1..MAX_RETRIES] = [1, 2, 3]"
  by (simp add: MAX_RETRIES_def upto.simps)

lemma probe_attempt_run:
  "probe_attempt a w =
     (if http_200 (net w (calls w))
      then (Inl (SystemExit 0),
            w\<lparr>calls := Suc (calls w),
              trace := trace w @ [Log 198, Get GOOGLE_URL TIMEOUT, Log 41, Log 201]\<rparr>)
      else (Inr None,
            w\<lparr>calls := Suc (calls w),
              trace := trace w @
                [Log 198, Get GOOGLE_URL TIMEOUT,
                 Log (case net w (calls w) of Inl e \<Rightarrow> 47 | Inr r \<Rightarrow> 44)] @
                (if a < MAX_RETRIES then [Log 205, Sleep RETRY_INTERVAL] else [])\<rparr>))"
  by (auto simp add: probe_attempt_def check_google_connectivity_run prog_defs http_200_def
      split: sum.splits)

lemma start_branch_run:
  "start_branch w =
     (if http_200 (net w (calls w))
      then
        if http_200 (net w (Suc (calls w)))
        then (Inl (SystemExit 0),
              w\<lparr>calls := Suc (Suc (calls w)),
                trace := trace w @
                  [Log 215, Log 100, Get OPENCLASH_UP_URL TIMEOUT, Log 103, Log 105, Sleep 15,
                   Log 218, Get GOOGLE_URL TIMEOUT, Log 41, Log 222]\<rparr>)
        else (Inr (),
              w\<lparr>calls := Suc (Suc (calls w)),
                trace := trace w @
                  [Log 215, Log 100, Get OPENCLASH_UP_URL TIMEOUT, Log 103, Log 105, Sleep 15,
                   Log 218, Get GOOGLE_URL TIMEOUT,
                   Log (case net w (Suc (calls w)) of Inl e \<Rightarrow> 47 | Inr r \<Rightarrow> 44),
                   Log 225]\<rparr>)
      else (Inr (),
            w\<lparr>calls := Suc (calls w),
              trace := trace w @
                [Log 215, Log 100, Get OPENCLASH_UP_URL TIMEOUT,
                 Log (case net w (calls w) of Inl e \<Rightarrow> 112 | Inr r \<Rightarrow> 109),
                 Log 227]\<rparr>))"
  by (auto simp add: start_branch_def start_openclash_run check_google_connectivity_run
      prog_defs http_200_def split: sum.splits)


lemma probe_loop_run:
  "for_loop [1..MAX_RETRIES] probe_attempt w =
     (if http_200 (net w (calls w))
      then (Inl (SystemExit 0),
            w\<lparr>calls := Suc (calls w),
              trace := trace w @ [Log 198, Get GOOGLE_URL TIMEOUT, Log 41, Log 201]\<rparr>)
      else if http_200 (net w (Suc (calls w)))
      then (Inl (SystemExit 0),
            w\<lparr>calls := Suc (Suc (calls w)),
              trace := trace w @
                [Log 198, Get GOOGLE_URL TIMEOUT,
                 Log (case net w (calls w) of Inl e \<Rightarrow> 47 | Inr r \<Rightarrow> 44),
                 Log 205, Sleep 30,
                 Log 198, Get GOOGLE_URL TIMEOUT, Log 41, Log 201]\<rparr>)
      else if http_200 (net w (Suc (Suc (calls w))))
      then (Inl (SystemExit 0),
            w\<lparr>calls := Suc (Suc (Suc (calls w))),
              trace := trace w @
                [Log 198, Get GOOGLE_URL TIMEOUT,
                 Log (case net w (calls w) of Inl e \<Rightarrow> 47 | Inr r \<Rightarrow> 44),
                 Log 205, Sleep 30,
                 Log 198, Get GOOGLE_URL TIMEOUT,
                 Log (case net w (Suc (calls w)) of Inl e \<Rightarrow> 47 | Inr r \<Rightarrow> 44),
                 Log 205, Sleep 30,
                 Log 198, Get GOOGLE_URL TIMEOUT, Log 41, Log 201]\<rparr>)
      else (Inr None,
            w\<lparr>calls := Suc (Suc (Suc (calls w))),
              trace := trace w @
                [Log 198, Get GOOGLE_URL TIMEOUT,
                 Log (case net w (calls w) of Inl e \<Rightarrow> 47 | Inr r \<Rightarrow> 44),
                 Log 205, Sleep 30,
                 Log 198, Get GOOGLE_URL TIMEOUT,
                 Log (case net w (Suc (calls w)) of Inl e \<Rightarrow> 47 | Inr r \<Rightarrow> 44),
                 Log 205, Sleep 30,
                 Log 198, Get GOOGLE_URL TIMEOUT,
                 Log (case net w (Suc (Suc (calls w))) of Inl e \<Rightarrow> 47 | Inr r \<Rightarrow> 44)]\<rparr>))"
  by (simp add: upto_MAX_RETRIES probe_attempt_run)
     (simp add: MAX_RETRIES_def RETRY_INTERVAL_def)


lemma restart_branch_run:
  "\<exists>r n evs. restart_branch w = (r, w\<lparr>calls := calls w + n, trace := trace w @ evs\<rparr>) \<and>
     (r = Inl (SystemExit 0) \<and> 0 < n \<and> http_200 (net w (calls w + (n - 1))) \<and>
        (\<exists>evs'. evs = evs' @ [Get GOOGLE_URL TIMEOUT, Log 41, Log 239]) \<or>
      r = Inr () \<or> r = Inl RecursionError)"
proof -
  define w0 where "w0 = w\<lparr>trace := trace w @ [Log 231]\<rparr>"
  obtain b n1 e1 where restart: "restart_openclash w0 =
      (Inr b, w0\<lparr>calls := calls w0 + n1, trace := trace w0 @ e1\<rparr>)"
    using restart_openclash_total [of w0] by blast
  show ?thesis
  proof (cases b)
    case False
    with restart have "restart_branch w =
        (Inr (), w\<lparr>calls := calls w + n1, trace := trace w @ [Log 231] @ e1 @ [Log 256]\<rparr>)"
      by (simp add: restart_branch_def prog_defs w0_def [symmetric]) (simp add: w0_def)
    then show ?thesis by blast
  next
    case True
    define w1 where "w1 = w\<lparr>calls := calls w + n1,
        trace := trace w @ [Log 231] @ e1 @ [Log 234, Sleep 60]\<rparr>"
    show ?thesis
    proof (cases "http_200 (net w (calls w + n1))")
      case ok: True
      with restart \<open>b\<close> have "restart_branch w =
        (Inl (SystemExit 0),
         w\<lparr>calls := calls w + Suc n1,
           trace := trace w @ ([Log 231] @ e1 @ [Log 234, Sleep 60]) @
             [Get GOOGLE_URL TIMEOUT, Log 41, Log 239]\<rparr>)"
        by (simp add: restart_branch_def prog_defs w0_def [symmetric]
            check_google_connectivity_run)
           (auto simp add: w0_def http_200_def split: sum.splits)
      with ok show ?thesis
        by (intro exI[of _ "Inl (SystemExit 0)"] exI[of _ "Suc n1"]
            exI[of _ "([Log 231] @ e1 @ [Log 234, Sleep 60]) @
             [Get GOOGLE_URL TIMEOUT, Log 41, Log 239]"]) simp
    next
      case bad: False
      define w2 where "w2 = w\<lparr>calls := Suc (calls w + n1),
        trace := trace w @ [Log 231] @ e1 @
          [Log 234, Sleep 60, Get GOOGLE_URL TIMEOUT,
           Log (case net w (calls w + n1) of Inl e \<Rightarrow> 47 | Inr r \<Rightarrow> 44),
           Log 242, Log 245]\<rparr>"
      obtain ls where status: "check_openclash_status w2 =
         (status_result (stdout_encodes w2) (net w2 (calls w2)),
          w2\<lparr>calls := Suc (calls w2),
             trace := trace w2 @ Get OPENCLASH_STATUS_URL TIMEOUT # map Log ls\<rparr>)"
        using check_openclash_status_line [of w2] by blast
      have step: "restart_branch w =
          bind check_openclash_status (\<lambda>final_status.
            if final_status
            then block [log_message 248, log_message 249, log_message 250, log_message 251]
                   (log_message 252)
            else log_message 254) w2"
        using restart \<open>b\<close> bad
        by (simp add: restart_branch_def prog_defs w0_def [symmetric]
            check_google_connectivity_run)
           (auto simp add: w0_def w2_def http_200_def split: sum.splits)
      from status_result_cases [of "stdout_encodes w2" "net w2 (calls w2)"]
      have "\<exists>r evs. restart_branch w =
          (r, w\<lparr>calls := calls w + Suc (Suc n1), trace := trace w @ evs\<rparr>) \<and>
          (r = Inr () \<or> r = Inl RecursionError)"
      proof
        assume "\<exists>b. status_result (stdout_encodes w2) (net w2 (calls w2)) = Inr b"
        then obtain running where
          "status_result (stdout_encodes w2) (net w2 (calls w2)) = Inr running"
          by blast
        with status show ?thesis
          unfolding step
          by (cases running) (simp_all add: prog_defs, auto simp add: w2_def)
      next
        assume "status_result (stdout_encodes w2) (net w2 (calls w2)) = Inl RecursionError"
        with status show ?thesis
          unfolding step
          by (simp add: prog_defs, auto simp add: w2_def)
      qed
      then show ?thesis by blast
    qed
  qed
qed

lemma main_unfold:
  "main w =
     (case for_loop [1..MAX_RETRIES] probe_attempt (w\<lparr>trace := trace w @ [Log 194]\<rparr>) of
        (Inl e, w1) \<Rightarrow> (Inl e, w1)
      | (Inr returned, w1) \<Rightarrow>
          (case check_openclash_status (w1\<lparr>trace := trace w1 @ [Log 209]\<rparr>) of
             (Inl e, w2) \<Rightarrow> (Inl e, w2)
           | (Inr openclash_running, w2) \<Rightarrow>
               (case (if \<not> openclash_running then start_branch else restart_branch) w2 of
                  (Inl e, w3) \<Rightarrow> (Inl e, w3)
                | (Inr u, w3) \<Rightarrow> (Inr (), w3\<lparr>trace := trace w3 @ [Log 258]\<rparr>))))"
  by (simp add: main_def prog_defs split: prod.splits sum.splits)

lemma check_google_connectivity_fst:
  "fst (check_google_connectivity w) = Inr (http_200 (net w (calls w)))"
  by (simp add: check_google_connectivity_run)

lemma check_openclash_status_fst:
  "fst (check_openclash_status w) = status_result (stdout_encodes w) (net w (calls w))"
  using check_openclash_status_line [of w] by auto

lemma start_openclash_fst:
  "fst (start_openclash w) = Inr (http_200 (net w (calls w)))"
  by (simp add: start_openclash_run)

text \<open>
  Claim C6. When the first reachability probe succeeds, \<open>main\<close> ends with
  \<open>sys.exit(0)\<close> after exactly one GET, the probe of \<open>GOOGLE_URL\<close>: the whole trace of
  the run is two log lines, that GET and two more log lines, so no status check, start
  or restart request is made and nothing sleeps. The result of the probe depends on the
  outcome of the next GET only, so the hypothesis runs it on \<open>w\<close> itself.
\<close>

theorem main_first_probe_succeeds:
  assumes "fst (check_google_connectivity w) = Inr True"
  shows "main w =
     (Inl (SystemExit 0),
      w\<lparr>calls := Suc (calls w),
        trace := trace w @
          [Log 194, Log 198, Get GOOGLE_URL TIMEOUT, Log 41, Log 201]\<rparr>)"
  using assms
  by (simp add: check_google_connectivity_fst main_unfold probe_loop_run)

theorem main_first_probe_succeeds_witness:
  "main \<lparr>net = \<lambda>k. Inr \<lparr>status_code = 200, body_json = Inl RaisesValueError\<rparr>, stdout_encodes = utf8_strict, calls = 0, trace = []\<rparr> =
     (Inl (SystemExit 0),
      \<lparr>net = \<lambda>k. Inr \<lparr>status_code = 200, body_json = Inl RaisesValueError\<rparr>, stdout_encodes = utf8_strict, calls = 1,
       trace = [Log 194, Log 198, Get GOOGLE_URL TIMEOUT, Log 41, Log 201]\<rparr>)"
  using main_first_probe_succeeds
    [of "\<lparr>net = \<lambda>k. Inr \<lparr>status_code = 200, body_json = Inl RaisesValueError\<rparr>, stdout_encodes = utf8_strict, calls = 0, trace = []\<rparr>"]
  by (simp add: check_google_connectivity_def prog_defs)

text \<open>
  Claim C7. When the three initial probes fail, the status check reports not running,
  the start succeeds and the probe after it succeeds, \<open>main\<close> ends with \<open>sys.exit(0)\<close>
  after exactly six GETs: three probes (30 seconds apart), one status check, one start
  (followed by its 15 seconds) and one more probe. No request goes to the down URL and
  only the one of \<open>start_openclash\<close> to the up URL, so nothing of the restart is run.
  The outcome of the k-th GET of the run decides the call that issues it, whatever the
  trace so far, so each hypothesis runs the function on \<open>w\<close> with the call counter
  moved there.
\<close>

theorem main_start_recovers:
  assumes probes: "\<forall>k<3. fst (check_google_connectivity (w\<lparr>calls := calls w + k\<rparr>)) =
             Inr False"
    and status: "fst (check_openclash_status (w\<lparr>calls := calls w + 3\<rparr>)) = Inr False"
    and start: "fst (start_openclash (w\<lparr>calls := calls w + 4\<rparr>)) = Inr True"
    and probe: "fst (check_google_connectivity (w\<lparr>calls := calls w + 5\<rparr>)) = Inr True"
  shows "\<exists>evs. main w =
           (Inl (SystemExit 0), w\<lparr>calls := calls w + 6, trace := trace w @ evs\<rparr>) \<and>
         actions evs =
           [Get GOOGLE_URL TIMEOUT, Sleep 30,
            Get GOOGLE_URL TIMEOUT, Sleep 30,
            Get GOOGLE_URL TIMEOUT,
            Get OPENCLASH_STATUS_URL TIMEOUT,
            Get OPENCLASH_UP_URL TIMEOUT, Sleep 15,
            Get GOOGLE_URL TIMEOUT] \<and>
         requested evs =
           [GOOGLE_URL, GOOGLE_URL, GOOGLE_URL, OPENCLASH_STATUS_URL, OPENCLASH_UP_URL,
            GOOGLE_URL]"
proof -
  from probes have fails: "\<forall>k<3. \<not> http_200 (net w (calls w + k))"
    by (simp add: check_google_connectivity_fst)
  from fails [rule_format, of 0] have p0: "\<not> http_200 (net w (calls w))"
    by simp
  from fails [rule_format, of 1] have p1: "\<not> http_200 (net w (Suc (calls w)))"
    by simp
  from fails [rule_format, of 2] have p2: "\<not> http_200 (net w (Suc (Suc (calls w))))"
    by simp
  from status have st:
    "status_result (stdout_encodes w) (net w (Suc (Suc (Suc (calls w))))) = Inr False"
    by (simp add: check_openclash_status_fst eval_nat_numeral)
  from start have up: "http_200 (net w (Suc (Suc (Suc (Suc (calls w))))))"
    by (simp add: start_openclash_fst eval_nat_numeral)
  from probe have p5: "http_200 (net w (Suc (Suc (Suc (Suc (Suc (calls w)))))))"
    by (simp add: check_google_connectivity_fst eval_nat_numeral)
  define wl where "wl = w\<lparr>calls := Suc (Suc (Suc (calls w))),
              trace := trace w @
                [Log 194,
                 Log 198, Get GOOGLE_URL TIMEOUT,
                 Log (case net w (calls w) of Inl e \<Rightarrow> 47 | Inr r \<Rightarrow> 44),
                 Log 205, Sleep 30,
                 Log 198, Get GOOGLE_URL TIMEOUT,
                 Log (case net w (Suc (calls w)) of Inl e \<Rightarrow> 47 | Inr r \<Rightarrow> 44),
                 Log 205, Sleep 30,
                 Log 198, Get GOOGLE_URL TIMEOUT,
                 Log (case net w (Suc (Suc (calls w))) of Inl e \<Rightarrow> 47 | Inr r \<Rightarrow> 44)]\<rparr>"
  define ws where "ws = wl\<lparr>trace := trace wl @ [Log 209]\<rparr>"
  obtain ls where line: "check_openclash_status ws =
     (status_result (stdout_encodes ws) (net ws (calls ws)),
      ws\<lparr>calls := Suc (calls ws),
        trace := trace ws @ Get OPENCLASH_STATUS_URL TIMEOUT # map Log ls\<rparr>)"
    using check_openclash_status_line [of ws] by blast
  have st': "status_result (stdout_encodes ws) (net ws (calls ws)) = Inr False"
    using st by (simp add: ws_def wl_def)
  have loop: "for_loop [1..MAX_RETRIES] probe_attempt (w\<lparr>trace := trace w @ [Log 194]\<rparr>) =
      (Inr None, wl)"
    using p0 p1 p2 by (simp add: probe_loop_run wl_def)
  have "main w =
     (Inl (SystemExit 0),
      w\<lparr>calls := calls w + 6,
        trace := trace w @
          ([Log 194,
            Log 198, Get GOOGLE_URL TIMEOUT,
            Log (case net w (calls w) of Inl e \<Rightarrow> 47 | Inr r \<Rightarrow> 44),
            Log 205, Sleep 30,
            Log 198, Get GOOGLE_URL TIMEOUT,
            Log (case net w (Suc (calls w)) of Inl e \<Rightarrow> 47 | Inr r \<Rightarrow> 44),
            Log 205, Sleep 30,
            Log 198, Get GOOGLE_URL TIMEOUT,
            Log (case net w (Suc (Suc (calls w))) of Inl e \<Rightarrow> 47 | Inr r \<Rightarrow> 44),
            Log 209, Get OPENCLASH_STATUS_URL TIMEOUT] @ map Log ls @
           [Log 215, Log 100, Get OPENCLASH_UP_URL TIMEOUT, Log 103, Log 105, Sleep 15,
            Log 218, Get GOOGLE_URL TIMEOUT, Log 41, Log 222])\<rparr>)"
    unfolding main_unfold loop
    apply (simp only: prod.case sum.case ws_def [symmetric] line st')
    using up p5
    apply (simp add: ws_def wl_def start_branch_run)
    done
  then show ?thesis
    by (intro exI conjI, assumption) simp_all
qed


theorem main_start_recovers_witness:
  "\<exists>evs. main \<lparr>net = \<lambda>k. if k < 3 then Inl ConnectionError
                      else if k = 3
                      then Inr \<lparr>status_code = 200,
                               body_json = Inr (JObj [(''running'', JBool False)])\<rparr>
                      else Inr \<lparr>status_code = 200, body_json = Inl RaisesValueError\<rparr>,
               stdout_encodes = utf8_strict, calls = 0, trace = []\<rparr> =
          (Inl (SystemExit 0),
           \<lparr>net = \<lambda>k. if k < 3 then Inl ConnectionError
                      else if k = 3
                      then Inr \<lparr>status_code = 200,
                               body_json = Inr (JObj [(''running'', JBool False)])\<rparr>
                      else Inr \<lparr>status_code = 200, body_json = Inl RaisesValueError\<rparr>,
            stdout_encodes = utf8_strict, calls = 6, trace = evs\<rparr>) \<and>
         actions evs =
           [Get GOOGLE_URL TIMEOUT, Sleep 30,
            Get GOOGLE_URL TIMEOUT, Sleep 30,
            Get GOOGLE_URL TIMEOUT,
            Get OPENCLASH_STATUS_URL TIMEOUT,
            Get OPENCLASH_UP_URL TIMEOUT, Sleep 15,
            Get GOOGLE_URL TIMEOUT] \<and>
         requested evs =
           [GOOGLE_URL, GOOGLE_URL, GOOGLE_URL, OPENCLASH_STATUS_URL, OPENCLASH_UP_URL,
            GOOGLE_URL]"
  using main_start_recovers
    [of "\<lparr>net = \<lambda>k. if k < 3 then Inl ConnectionError
                      else if k = 3
                      then Inr \<lparr>status_code = 200,
                               body_json = Inr (JObj [(''running'', JBool False)])\<rparr>
                      else Inr \<lparr>status_code = 200, body_json = Inl RaisesValueError\<rparr>,
               stdout_encodes = utf8_strict, calls = 0, trace = []\<rparr>"]
  by (simp add: check_google_connectivity_fst check_openclash_status_fst start_openclash_fst
      http_200_def status_result_def status_fields_def py_in_def py_eq_def
      active_values_def unprintable_def)

lemma start_branch_shape:
  "\<exists>r n evs. start_branch w = (r, w\<lparr>calls := calls w + n, trace := trace w @ evs\<rparr>) \<and>
     (r = Inl (SystemExit 0) \<and> 0 < n \<and> http_200 (net w (calls w + (n - 1))) \<and>
        (\<exists>evs'. evs = evs' @ [Get GOOGLE_URL TIMEOUT, Log 41, Log 222]) \<or>
      r = Inr ())"
proof (cases "http_200 (net w (calls w))")
  case False
  then show ?thesis
    unfolding start_branch_run
    by (intro exI[of _ "Inr ()"] exI[of _ "Suc 0"]
        exI[of _ "[Log 215, Log 100, Get OPENCLASH_UP_URL TIMEOUT,
                 Log (case net w (calls w) of Inl e \<Rightarrow> 112 | Inr r \<Rightarrow> 109),
                 Log 227]"]) simp
next
  case up: True
  show ?thesis
  proof (cases "http_200 (net w (Suc (calls w)))")
    case True
    with up show ?thesis
      unfolding start_branch_run
      by (intro exI[of _ "Inl (SystemExit 0)"] exI[of _ "Suc (Suc 0)"]
          exI[of _ "[Log 215, Log 100, Get OPENCLASH_UP_URL TIMEOUT, Log 103, Log 105,
                     Sleep 15, Log 218] @ [Get GOOGLE_URL TIMEOUT, Log 41, Log 222]"]) simp
  next
    case False
    with up show ?thesis
      unfolding start_branch_run
      by (intro exI[of _ "Inr ()"] exI[of _ "Suc (Suc 0)"]
          exI[of _ "[Log 215, Log 100, Get OPENCLASH_UP_URL TIMEOUT, Log 103, Log 105, Sleep 15,
                   Log 218, Get GOOGLE_URL TIMEOUT,
                   Log (case net w (Suc (calls w)) of Inl e \<Rightarrow> 47 | Inr r \<Rightarrow> 44),
                   Log 225]"]) simp
  qed
qed

lemma main_outcomes:
  "\<exists>n evs. snd (main w) = w\<lparr>calls := calls w + n, trace := trace w @ evs\<rparr> \<and>
     (fst (main w) = Inl (SystemExit 0) \<and> 0 < n \<and> http_200 (net w (calls w + (n - 1))) \<and>
        (\<exists>evs' l. evs = evs' @ [Get GOOGLE_URL TIMEOUT, Log 41, Log l] \<and>
                  (l = 201 \<or> l = 222 \<or> l = 239)) \<or>
      fst (main w) = Inr () \<and> (\<exists>evs'. evs = evs' @ [Log 258]) \<and>
        \<not> http_200 (net w (calls w)) \<and> \<not> http_200 (net w (calls w + 1)) \<and>
        \<not> http_200 (net w (calls w + 2)) \<or>
      fst (main w) = Inl RecursionError)"
proof -
  consider
      (first) "http_200 (net w (calls w))"
    | (second) "\<not> http_200 (net w (calls w))" "http_200 (net w (Suc (calls w)))"
    | (third) "\<not> http_200 (net w (calls w))" "\<not> http_200 (net w (Suc (calls w)))"
        "http_200 (net w (Suc (Suc (calls w))))"
    | (none) "\<not> http_200 (net w (calls w))" "\<not> http_200 (net w (Suc (calls w)))"
        "\<not> http_200 (net w (Suc (Suc (calls w))))"
    by blast
  then show ?thesis
  proof cases
    case first
    then have "main w =
      (Inl (SystemExit 0),
       w\<lparr>calls := calls w + 1,
         trace := trace w @ [Log 194, Log 198] @ [Get GOOGLE_URL TIMEOUT, Log 41, Log 201]\<rparr>)"
      by (simp add: main_unfold probe_loop_run)
    with first show ?thesis
      by (intro exI[of _ 1]
          exI[of _ "[Log 194, Log 198] @ [Get GOOGLE_URL TIMEOUT, Log 41, Log 201]"]) simp
  next
    case second
    define pre where "pre =
      [Log 194, Log 198, Get GOOGLE_URL TIMEOUT,
       Log (case net w (calls w) of Inl e \<Rightarrow> 47 | Inr r \<Rightarrow> 44),
       Log 205, Sleep 30, Log 198]"
    from second have "main w =
      (Inl (SystemExit 0),
       w\<lparr>calls := calls w + 2,
         trace := trace w @ pre @ [Get GOOGLE_URL TIMEOUT, Log 41, Log 201]\<rparr>)"
      by (simp add: main_unfold probe_loop_run pre_def)
    with second show ?thesis
      by (intro exI[of _ 2] exI[of _ "pre @ [Get GOOGLE_URL TIMEOUT, Log 41, Log 201]"])
         (simp add: numeral_2_eq_2 numeral_3_eq_3)
  next
    case third
    define pre where "pre =
      [Log 194, Log 198, Get GOOGLE_URL TIMEOUT,
       Log (case net w (calls w) of Inl e \<Rightarrow> 47 | Inr r \<Rightarrow> 44),
       Log 205, Sleep 30, Log 198, Get GOOGLE_URL TIMEOUT,
       Log (case net w (Suc (calls w)) of Inl e \<Rightarrow> 47 | Inr r \<Rightarrow> 44),
       Log 205, Sleep 30, Log 198]"
    from third have "main w =
      (Inl (SystemExit 0),
       w\<lparr>calls := calls w + 3,
         trace := trace w @ pre @ [Get GOOGLE_URL TIMEOUT, Log 41, Log 201]\<rparr>)"
      by (simp add: main_unfold probe_loop_run pre_def)
    with third show ?thesis
      by (intro exI[of _ 3] exI[of _ "pre @ [Get GOOGLE_URL TIMEOUT, Log 41, Log 201]"])
         (simp add: numeral_2_eq_2 numeral_3_eq_3)
  next
    case none
    define pre where "pre =
      [Log 194, Log 198, Get GOOGLE_URL TIMEOUT,
       Log (case net w (calls w) of Inl e \<Rightarrow> 47 | Inr r \<Rightarrow> 44),
       Log 205, Sleep 30, Log 198, Get GOOGLE_URL TIMEOUT,
       Log (case net w (Suc (calls w)) of Inl e \<Rightarrow> 47 | Inr r \<Rightarrow> 44),
       Log 205, Sleep 30, Log 198, Get GOOGLE_URL TIMEOUT,
       Log (case net w (Suc (Suc (calls w))) of Inl e \<Rightarrow> 47 | Inr r \<Rightarrow> 44)]"
    define wl where "wl = w\<lparr>calls := calls w + 3, trace := trace w @ pre\<rparr>"
    define ws where "ws = wl\<lparr>trace := trace wl @ [Log 209]\<rparr>"
    have loop: "for_loop [1..MAX_RETRIES] probe_attempt (w\<lparr>trace := trace w @ [Log 194]\<rparr>) =
        (Inr None, wl)"
      using none by (simp add: probe_loop_run wl_def pre_def)
    obtain ls where line: "check_openclash_status ws =
       (status_result (stdout_encodes ws) (net ws (calls ws)),
        ws\<lparr>calls := Suc (calls ws),
          trace := trace ws @ Get OPENCLASH_STATUS_URL TIMEOUT # map Log ls\<rparr>)"
      using check_openclash_status_line [of ws] by blast
    define mid where "mid = pre @ Log 209 # Get OPENCLASH_STATUS_URL TIMEOUT # map Log ls"
    define wb where "wb = w\<lparr>calls := calls w + 4, trace := trace w @ mid\<rparr>"
    have wb: "ws\<lparr>calls := Suc (calls ws),
          trace := trace ws @ Get OPENCLASH_STATUS_URL TIMEOUT # map Log ls\<rparr> = wb"
      by (simp add: ws_def wl_def wb_def mid_def)
    from status_result_cases [of "stdout_encodes ws" "net ws (calls ws)"]
    show ?thesis
    proof
      assume "status_result (stdout_encodes ws) (net ws (calls ws)) = Inl RecursionError"
      then have "main w = (Inl RecursionError, wb)"
        unfolding main_unfold loop
        by (simp only: prod.case sum.case ws_def [symmetric] line wb)
      then show ?thesis
        by (intro exI[of _ 4] exI[of _ mid]) (simp add: wb_def)
    next
      assume "\<exists>b. status_result (stdout_encodes ws) (net ws (calls ws)) = Inr b"
      then obtain running where
        running: "status_result (stdout_encodes ws) (net ws (calls ws)) = Inr running"
        by blast
      define branch where "branch = (if \<not> running then start_branch else restart_branch)"
      have main: "main w =
         (case branch wb of
            (Inl e, w3) \<Rightarrow> (Inl e, w3)
          | (Inr u, w3) \<Rightarrow> (Inr (), w3\<lparr>trace := trace w3 @ [Log 258]\<rparr>))"
        unfolding main_unfold loop
        by (simp only: prod.case sum.case ws_def [symmetric] line running wb branch_def)
      have "\<exists>r n evs. branch wb = (r, wb\<lparr>calls := calls wb + n, trace := trace wb @ evs\<rparr>) \<and>
         (r = Inl (SystemExit 0) \<and> 0 < n \<and> http_200 (net wb (calls wb + (n - 1))) \<and>
            (\<exists>evs' l. evs = evs' @ [Get GOOGLE_URL TIMEOUT, Log 41, Log l] \<and>
                      (l = 201 \<or> l = 222 \<or> l = 239)) \<or>
          r = Inr () \<or> r = Inl RecursionError)"
      proof (cases running)
        case True
        then have "branch = restart_branch" by (simp add: branch_def)
        with restart_branch_run [of wb] show ?thesis by force
      next
        case False
        then have "branch = start_branch" by (simp add: branch_def)
        with start_branch_shape [of wb] show ?thesis by force
      qed
      then obtain r n evs where
        run: "branch wb = (r, wb\<lparr>calls := calls wb + n, trace := trace wb @ evs\<rparr>)"
        and shape: "r = Inl (SystemExit 0) \<and> 0 < n \<and> http_200 (net wb (calls wb + (n - 1))) \<and>
            (\<exists>evs' l. evs = evs' @ [Get GOOGLE_URL TIMEOUT, Log 41, Log l] \<and>
                      (l = 201 \<or> l = 222 \<or> l = 239)) \<or>
          r = Inr () \<or> r = Inl RecursionError"
        by blast
      from shape consider
          (exit) "r = Inl (SystemExit 0) \<and> 0 < n \<and> http_200 (net wb (calls wb + (n - 1))) \<and>
            (\<exists>evs' l. evs = evs' @ [Get GOOGLE_URL TIMEOUT, Log 41, Log l] \<and>
                      (l = 201 \<or> l = 222 \<or> l = 239))"
        | (returns) "r = Inr ()"
        | (raises) "r = Inl RecursionError"
        by blast
      then show ?thesis
      proof cases
        case exit
        then obtain evs' l' where evs: "evs = evs' @ [Get GOOGLE_URL TIMEOUT, Log 41, Log l']"
          and l': "l' = 201 \<or> l' = 222 \<or> l' = 239"
          by blast
        from exit run have "main w =
           (Inl (SystemExit 0),
            w\<lparr>calls := calls w + (4 + n), trace := trace w @ mid @ evs\<rparr>)"
          by (simp add: main wb_def)
        moreover have "http_200 (net w (calls w + (4 + n - 1)))"
        proof -
          from exit have "0 < n" by simp
          then have idx: "calls w + (4 + n - 1) = calls w + 4 + (n - 1)" by arith
          from exit have "http_200 (net wb (calls wb + (n - 1)))" by blast
          then have "http_200 (net w (calls w + 4 + (n - 1)))" by (simp add: wb_def)
          then show ?thesis by (simp only: idx)
        qed
        ultimately show ?thesis
          using evs l'
          by (intro exI[of _ "4 + n"] exI[of _ "mid @ evs"]) auto
      next
        case returns
        with run have "main w =
           (Inr (), w\<lparr>calls := calls w + (4 + n), trace := trace w @ mid @ evs @ [Log 258]\<rparr>)"
          by (simp add: main wb_def)
        with none show ?thesis
          by (intro exI[of _ "4 + n"] exI[of _ "mid @ evs @ [Log 258]"]) auto
      next
        case raises
        with run have "main w =
           (Inl RecursionError, w\<lparr>calls := calls w + (4 + n), trace := trace w @ mid @ evs\<rparr>)"
          by (simp add: main wb_def)
        then show ?thesis
          by (intro exI[of _ "4 + n"] exI[of _ "mid @ evs"]) auto
      qed
    qed
  qed
qed

text \<open>
  Claim C9, at the input where the code departs from it. The three initial probes fail
  and the status endpoint answers 200 with a body that nests deeper than the recursion
  limit. \<open>check_openclash_status\<close> raises \<open>RecursionError\<close> and \<open>main\<close> does not catch it:
  the run ends in that exception right after the GET of the status URL, without the final
  log line of line 258 and without falling off the end of \<open>main\<close>. (No run sets an exit
  code other than 0, and every run that raises no \<open>RecursionError\<close> ends as the claim
  says: lemma \<open>main_outcomes\<close>.)
\<close>

theorem main_recursion_error:
  "main \<lparr>net = \<lambda>k. if k < 3 then Inl ConnectionError
                  else Inr \<lparr>status_code = 200, body_json = Inl RaisesRecursionError\<rparr>,
         stdout_encodes = utf8_strict, calls = 0, trace = []\<rparr> =
   (Inl RecursionError,
    \<lparr>net = \<lambda>k. if k < 3 then Inl ConnectionError
                 else Inr \<lparr>status_code = 200, body_json = Inl RaisesRecursionError\<rparr>,
     stdout_encodes = utf8_strict, calls = 4,
     trace = [Log 194,
              Log 198, Get GOOGLE_URL TIMEOUT, Log 47, Log 205, Sleep 30,
              Log 198, Get GOOGLE_URL TIMEOUT, Log 47, Log 205, Sleep 30,
              Log 198, Get GOOGLE_URL TIMEOUT, Log 47,
              Log 209, Get OPENCLASH_STATUS_URL TIMEOUT]\<rparr>)"
  by (simp add: main_unfold probe_loop_run http_200_def check_openclash_status_def prog_defs)

end
